theory Spec2Isabelle
  imports Complex_Main
begin

section \<open>Scope\<close>

text \<open>
  The Cloud Functions of Brick Deal Hunter: the catalog fetcher \<open>fetchFromRebrickable\<close>,
  the Firestore operations \<open>saveLegoSetsCatalog\<close>, \<open>getLegoSetsCatalog\<close>,
  \<open>savePriceToFirestore\<close>, \<open>saveDealToFirestore\<close> and \<open>cleanOldDeals\<close>, the price
  generator \<open>generateSimulatedPrice\<close> with \<open>getRetailerUrl\<close>, the scheduled functions
  \<open>updateLegoCatalog\<close> and \<open>updatePrices\<close>, and the endpoint \<open>manualPriceUpdate\<close>. The
  calls of the logger are left out, and so are the endpoints \<open>manualCatalogUpdate\<close> and
  \<open>healthCheck\<close>, which the properties below do not concern.
\<close>

section \<open>JavaScript values\<close>

text \<open>
  The functions are TypeScript; every \<open>number\<close> is an IEEE double. Finite numbers are
  modelled as exact reals, so the rounding error of double arithmetic is not part of the
  model. The three non-finite results that the division of the percent-off computation
  can produce are kept as values of their own.
\<close>

datatype jsnum = Fin real | NaN | PosInfinity | NegInfinity

text \<open>\<open>Math.round\<close> rounds to the nearest integer, a tie towards plus infinity.\<close>

definition Math_round :: "real \<Rightarrow> int" where
  "Math_round x = \<lfloor>x + 1 / 2\<rfloor>"

definition Math_floor :: "real \<Rightarrow> int" where
  "Math_floor x = \<lfloor>x\<rfloor>"

text \<open>\<open>a / b\<close> on finite operands (signed zeros are not distinguished).\<close>

definition js_div :: "real \<Rightarrow> real \<Rightarrow> jsnum" where
  "js_div a b =
     (if b \<noteq> 0 then Fin (a / b)
      else if a = 0 then NaN
      else if 0 < a then PosInfinity
      else NegInfinity)"

text \<open>\<open>x * c\<close> for a finite constant \<open>c > 0\<close>.\<close>

fun js_times :: "jsnum \<Rightarrow> real \<Rightarrow> jsnum" where
  "js_times (Fin x) c = Fin (x * c)"
| "js_times NaN c = NaN"
| "js_times PosInfinity c = PosInfinity"
| "js_times NegInfinity c = NegInfinity"

fun js_round :: "jsnum \<Rightarrow> jsnum" where
  "js_round (Fin x) = Fin (of_int (Math_round x))"
| "js_round NaN = NaN"
| "js_round PosInfinity = PosInfinity"
| "js_round NegInfinity = NegInfinity"

text \<open>\<open>x >= c\<close>: every comparison with \<open>NaN\<close> is false.\<close>

fun js_ge :: "jsnum \<Rightarrow> real \<Rightarrow> bool" where
  "js_ge (Fin x) c = (c \<le> x)"
| "js_ge NaN c = False"
| "js_ge PosInfinity c = True"
| "js_ge NegInfinity c = False"

subsection \<open>Strings\<close>

text \<open>
  Strings are byte lists; \<open>toLowerCase\<close> is modelled on the ASCII letters, which is all
  that the search for \<open>minifig\<close> depends on.
\<close>

definition toLowerCase_char :: "char \<Rightarrow> char" where
  "toLowerCase_char c =
     (case map_of (zip ''ABCDEFGHIJKLMNOPQRSTUVWXYZ'' ''abcdefghijklmnopqrstuvwxyz'') c of
        Some l \<Rightarrow> l
      | None \<Rightarrow> c)"

definition toLowerCase :: "string \<Rightarrow> string" where
  "toLowerCase s = map toLowerCase_char s"

definition startsWith :: "string \<Rightarrow> string \<Rightarrow> bool" where
  "startsWith s pat = (take (length pat) s = pat)"

fun includes_str :: "string \<Rightarrow> string \<Rightarrow> bool" where
  "includes_str [] pat = (pat = [])"
| "includes_str (c # cs) pat = (startsWith (c # cs) pat \<or> includes_str cs pat)"

text \<open>\<open>s.replace(pat, rep)\<close> with a string pattern replaces the first occurrence only.\<close>

fun replace :: "string \<Rightarrow> string \<Rightarrow> string \<Rightarrow> string" where
  "replace [] pat rep = (if pat = [] then rep else [])"
| "replace (c # cs) pat rep =
     (if startsWith (c # cs) pat then rep @ drop (length pat) (c # cs)
      else c # replace cs pat rep)"

text \<open>A string is falsy when it is \<open>null\<close>, \<open>undefined\<close> or empty.\<close>

fun falsy :: "string option \<Rightarrow> bool" where
  "falsy None = True"
| "falsy (Some s) = (s = [])"

section \<open>Types\<close>

text \<open>An entry of the \<open>results\<close> array of the Rebrickable sets endpoint.\<close>

record rb_set =
  set_num :: string
  name :: string
  set_img_url :: "string option"
  num_parts :: int
  theme_id :: int
  year :: int

datatype availability = Available | ComingSoon | SoldOut | RetiringSoon

fun availability_string :: "availability \<Rightarrow> string" where
  "availability_string Available = ''available''"
| "availability_string ComingSoon = ''coming_soon''"
| "availability_string SoldOut = ''sold_out''"
| "availability_string RetiringSoon = ''retiring_soon''"

record LegoSet =
  setNumber :: string
  name :: string
  price :: real
  imageUrl :: string
  url :: string
  theme :: "string option"
  themeId :: "real option"
  pieces :: "real option"
  year :: "real option"
  availability :: availability

text \<open>Timestamps are milliseconds since the epoch.\<close>

record PriceData =
  setNumber :: string
  setName :: string
  retailer :: string
  currentPrice :: real
  originalPrice :: real
  url :: string
  inStock :: bool
  lastUpdated :: int
  theme :: "string option"
  imageUrl :: "string option"
  pieces :: "real option"

record DealData = PriceData +
  percentOff :: jsnum
  savings :: real

section \<open>The environment\<close>

text \<open>
  What a run reads from outside is a parameter: the values \<open>Math.random()\<close> returns, the
  readings of the clock, the calendar year, and the answer of the upstream API to each
  request (\<open>fetch e k req\<close> is the answer to \<open>req\<close> when \<open>k\<close> requests were sent before
  it). What a run changes is the \<open>world\<close>: the Firestore collections, the log of the
  committed writes, the log of the requests sent, and how many random values and clock
  readings were consumed.
\<close>

record sets_query =
  min_year :: int
  max_year :: int
  page :: nat
  page_size :: nat
  ordering :: string

datatype request = GetSets sets_query | GetThemes nat

record page_data =
  results :: "rb_set list option"
  next_url :: "string option"

datatype json_result = InvalidJson | Json page_data

record response =
  ok :: bool
  status :: nat
  json :: json_result

datatype fetch_result = Rejected | Resolved response

datatype fval = FStr string | FNum jsnum | FBool bool | FTime int

type_synonym doc = "string \<rightharpoonup> fval"

type_synonym collection = "(string \<times> doc) list"

datatype write_op = SetMerge string string doc | Delete string string

record env =
  Math_random :: "nat \<Rightarrow> real"
  Date_now :: "nat \<Rightarrow> int"
  getFullYear :: int
  fetch :: "nat \<Rightarrow> request \<Rightarrow> fetch_result"

record world =
  db :: "string \<Rightarrow> collection"
  commits :: "write_op list list"
  requests :: "request list"
  randoms :: nat
  ticks :: nat

section \<open>Rebrickable API\<close>

definition THEME_NAMES :: "(int \<times> string) list" where
  "THEME_NAMES =
     [(158, ''Star Wars''), (1, ''Technic''), (252, ''Ideas''), (435, ''Architecture''),
      (52, ''City''), (577, ''Marvel Super Heroes''), (494, ''Friends''), (246, ''Creator''),
      (576, ''DC Super Heroes''), (504, ''Harry Potter''), (592, ''Ninjago''),
      (610, ''Speed Champions''), (209, ''Disney''), (720, ''Icons''),
      (667, ''Botanical Collection''), (608, ''Super Mario''), (573, ''Minecraft''),
      (697, ''Art''), (503, ''Duplo'')]"

definition estimatedPrice :: "int \<Rightarrow> int" where
  "estimatedPrice parts = Math_round (of_int parts * (11 / 100))"

text \<open>
  The body of the loop over the results of one page: \<open>None\<close> where the entry is skipped
  (\<open>continue\<close>), otherwise the set that is pushed.
\<close>

definition toLegoSet :: "rb_set \<Rightarrow> LegoSet option" where
  "toLegoSet s =
     (if falsy (set_img_url s) \<or> num_parts s < 20 then None
      else if num_parts s < 50 \<and> includes_str (toLowerCase (rb_set.name s)) ''minifig'' then None
      else Some \<lparr>
        LegoSet.setNumber = set_num s,
        name = rb_set.name s,
        price = (if estimatedPrice (num_parts s) > 0
                 then of_int (estimatedPrice (num_parts s)) else 20),
        imageUrl = (case set_img_url s of Some u \<Rightarrow> u | None \<Rightarrow> []),
        url = ''https://www.lego.com/en-us/product/'' @ replace (set_num s) ''-1'' '''',
        theme = Some (case map_of THEME_NAMES (theme_id s) of
                        Some n \<Rightarrow> n | None \<Rightarrow> ''LEGO''),
        themeId = Some (of_int (theme_id s)),
        pieces = Some (of_int (num_parts s)),
        year = Some (of_int (rb_set.year s)),
        availability = Available \<rparr>)"

definition pageSets :: "rb_set list \<Rightarrow> LegoSet list" where
  "pageSets rs = List.map_filter toLegoSet rs"

definition maxPages :: nat where
  "maxPages = 10"

definition setsRequest :: "env \<Rightarrow> nat \<Rightarrow> request" where
  "setsRequest e p =
     GetSets \<lparr> min_year = getFullYear e - 3, max_year = getFullYear e + 1,
               page = p, page_size = 100, ordering = ''-year'' \<rparr>"

text \<open>
  The \<open>while (page <= maxPages)\<close> loop. Every way of leaving the \<open>try\<close> block other than
  \<open>page++\<close> is a \<open>break\<close>: a rejected \<open>fetch\<close>, a response that is not ok, a body that is
  not JSON (both caught by the \<open>catch\<close>), an empty page, and a page without \<open>next\<close>.
  The pause of 300 ms between two pages changes nothing but the time.
\<close>

function fetchPages :: "env \<Rightarrow> nat \<Rightarrow> LegoSet list \<Rightarrow> world \<Rightarrow> LegoSet list \<times> world" where
  "fetchPages e p sets w =
     (if p \<le> maxPages then
        (let w1 = w\<lparr>requests := requests w @ [setsRequest e p]\<rparr> in
         case fetch e (length (requests w)) (setsRequest e p) of
           Rejected \<Rightarrow> (sets, w1)
         | Resolved r \<Rightarrow>
             if \<not> ok r then (sets, w1)
             else (case json r of
                     InvalidJson \<Rightarrow> (sets, w1)
                   | Json data \<Rightarrow>
                       (let rs = (case results data of None \<Rightarrow> [] | Some xs \<Rightarrow> xs) in
                        if length rs = 0 then (sets, w1)
                        else if falsy (next_url data) then (sets @ pageSets rs, w1)
                        else fetchPages e (p + 1) (sets @ pageSets rs) w1)))
      else (sets, w))"
  by pat_completeness auto
termination
  by (relation "measure (\<lambda>(e, p, sets, w). maxPages + 1 - p)") auto

declare fetchPages.simps [simp del]

definition fetchFromRebrickable :: "env \<Rightarrow> world \<Rightarrow> LegoSet list \<times> world" where
  "fetchFromRebrickable e w = fetchPages e 1 [] w"

text \<open>\<open>fetchThemes\<close> sends one request and only logs what comes back.\<close>

definition fetchThemes :: "env \<Rightarrow> world \<Rightarrow> world" where
  "fetchThemes e w = w\<lparr>requests := requests w @ [GetThemes 500]\<rparr>"

section \<open>Firestore operations\<close>

text \<open>
  A collection is the list of its documents with their keys, a document a map from field
  names to values. \<open>set(ref, data, {merge: true})\<close> creates the document or overrides the
  fields that \<open>data\<close> has and keeps the others; \<open>delete(ref)\<close> removes the document. A
  batch is applied as a whole when it is committed, and a single \<open>set\<close> is a commit of
  one write. Commits do not fail in this model; what can fail is the validation of the
  data of a write. The client is the one of \<open>admin.firestore()\<close> with its default
  settings, under which \<open>set\<close> throws, also with \<open>{merge: true}\<close> and before anything is
  sent, when a property of the data has the value \<open>undefined\<close>. A key is taken as it
  is: the checks of a document id by the client and the server (it is not empty and has
  no \<open>/\<close>) are not modelled; the ids of the pipeline are set numbers, alone or followed by
  \<open>_\<close> and the name of a retailer.

  An optional field of a record is an \<open>option\<close>. For a \<open>LegoSet\<close>, \<open>None\<close> is a property
  that the object does not have: the fetcher gives each of them a value, and
  \<open>doc.data()\<close> has no property for a field that the document lacks; so the spread
  \<open>{...set}\<close> of \<open>saveLegoSetsCatalog\<close> has no undefined value. For a \<open>PriceData\<close>,
  \<open>None\<close> is a property with the value \<open>undefined\<close>: the object literal of
  \<open>generateSimulatedPrice\<close> names \<open>imageUrl\<close>, \<open>theme\<close> and \<open>pieces\<close> and gives them
  what it reads from the set, and the spread in the literal of a deal copies them.
\<close>

fun upsert :: "string \<Rightarrow> doc \<Rightarrow> collection \<Rightarrow> collection" where
  "upsert k d [] = [(k, d)]"
| "upsert k d ((k', d') # c) =
     (if k' = k then (k', d' ++ d) # c else (k', d') # upsert k d c)"

definition remove :: "string \<Rightarrow> collection \<Rightarrow> collection" where
  "remove k c = filter (\<lambda>(k', d). k' \<noteq> k) c"

fun apply_op :: "write_op \<Rightarrow> (string \<Rightarrow> collection) \<Rightarrow> (string \<Rightarrow> collection)" where
  "apply_op (SetMerge c k d) store = store(c := upsert k d (store c))"
| "apply_op (Delete c k) store = store(c := remove k (store c))"

definition commit :: "write_op list \<Rightarrow> world \<Rightarrow> world" where
  "commit batch w = w\<lparr>db := fold apply_op batch (db w), commits := commits w @ [batch]\<rparr>"

text \<open>\<open>Timestamp.now()\<close> and \<open>Date.now()\<close> take the next reading of the clock.\<close>

definition Timestamp_now :: "env \<Rightarrow> world \<Rightarrow> int \<times> world" where
  "Timestamp_now e w = (Date_now e (ticks w), w\<lparr>ticks := Suc (ticks w)\<rparr>)"

definition random :: "env \<Rightarrow> world \<Rightarrow> real \<times> world" where
  "random e w = (Math_random e (randoms w), w\<lparr>randoms := Suc (randoms w)\<rparr>)"

text \<open>
  A job that does not return. \<open>Thrown D C\<close>: an exception has left the job (the
  scheduled function rethrows it, the endpoint answers 500); \<open>D\<close> is the store and \<open>C\<close>
  the log of commits at that time. \<open>IllTypedCatalog\<close>: the catalog has a document that
  the types of this model do not cover, see \<open>getLegoSetsCatalog\<close>.
\<close>

datatype failure = Thrown "string \<Rightarrow> collection" "write_op list list" | IllTypedCatalog

definition optional :: "string \<Rightarrow> fval option \<Rightarrow> doc" where
  "optional k v = (case v of None \<Rightarrow> Map.empty | Some x \<Rightarrow> [k \<mapsto> x])"

definition legoSetDoc :: "LegoSet \<Rightarrow> doc" where
  "legoSetDoc s =
     [''setNumber'' \<mapsto> FStr (LegoSet.setNumber s),
      ''name'' \<mapsto> FStr (LegoSet.name s),
      ''price'' \<mapsto> FNum (Fin (price s)),
      ''imageUrl'' \<mapsto> FStr (LegoSet.imageUrl s),
      ''url'' \<mapsto> FStr (LegoSet.url s),
      ''availability'' \<mapsto> FStr (availability_string (availability s))]
     ++ optional ''theme'' (map_option FStr (LegoSet.theme s))
     ++ optional ''themeId'' (map_option (\<lambda>x. FNum (Fin x)) (themeId s))
     ++ optional ''pieces'' (map_option (\<lambda>x. FNum (Fin x)) (LegoSet.pieces s))
     ++ optional ''year'' (map_option (\<lambda>x. FNum (Fin x)) (LegoSet.year s))"

definition batchSize :: nat where
  "batchSize = 450"

definition slice :: "'a list \<Rightarrow> nat \<Rightarrow> nat \<Rightarrow> 'a list" where
  "slice xs i j = take (j - i) (drop i xs)"

text \<open>The inner loop of \<open>saveLegoSetsCatalog\<close>: one \<open>batch.set\<close> for each set of the chunk.\<close>

fun catalogBatch :: "env \<Rightarrow> LegoSet list \<Rightarrow> write_op list \<Rightarrow> world \<Rightarrow> write_op list \<times> world" where
  "catalogBatch e [] batch w = (batch, w)"
| "catalogBatch e (s # chunk) batch w =
     (let (now, w1) = Timestamp_now e w
      in catalogBatch e chunk
           (batch @ [SetMerge ''lego_catalog'' (LegoSet.setNumber s)
                       (legoSetDoc s ++ [''lastUpdated'' \<mapsto> FTime now])]) w1)"

function saveCatalogFrom :: "env \<Rightarrow> LegoSet list \<Rightarrow> nat \<Rightarrow> world \<Rightarrow> world" where
  "saveCatalogFrom e sets i w =
     (if i < length sets then
        (let (batch, w1) = catalogBatch e (slice sets i (i + batchSize)) [] w
         in saveCatalogFrom e sets (i + batchSize) (commit batch w1))
      else w)"
  by pat_completeness auto
termination
  by (relation "measure (\<lambda>(e, sets, i, w). length sets - i)") (auto simp: batchSize_def)

declare saveCatalogFrom.simps [simp del]

definition saveLegoSetsCatalog :: "env \<Rightarrow> LegoSet list \<Rightarrow> world \<Rightarrow> world" where
  "saveLegoSetsCatalog e sets w = saveCatalogFrom e sets 0 w"

text \<open>
  \<open>getLegoSetsCatalog\<close> casts the documents of the query to \<open>LegoSet\<close> and checks
  nothing. Of an item of the result, the price jobs read \<open>setNumber\<close>, \<open>name\<close>, \<open>price\<close>,
  \<open>imageUrl\<close>, \<open>availability\<close>, \<open>theme\<close> and \<open>pieces\<close>, and nothing else.

  \<^item> A document in which one of these fields has a value of another type than the
    interface gives it, or a number that is not finite, is outside the types of this
    model: the query has no result (\<open>None\<close>) then.
  \<^item> A document that lacks \<open>setNumber\<close>, \<open>name\<close>, \<open>price\<close> or \<open>imageUrl\<close> gives an item
    on which that property reads as \<open>undefined\<close>: \<open>Incomplete\<close>.
  \<^item> A document that lacks \<open>theme\<close> or \<open>pieces\<close> gives a \<open>LegoSet\<close> without them.
  \<^item> \<open>url\<close>, \<open>themeId\<close> and \<open>year\<close> are not read: where the document has no value of
    the interface's type for one of them, the record has the empty string, or none.

  The order in which Firestore returns the documents of a query is not modelled: a query
  returns them in the order of the stored list.
\<close>

datatype catalog_item = Complete LegoSet | Incomplete

definition getStr :: "doc \<Rightarrow> string \<Rightarrow> string option" where
  "getStr d k = (case d k of Some (FStr s) \<Rightarrow> Some s | _ \<Rightarrow> None)"

definition getNum :: "doc \<Rightarrow> string \<Rightarrow> real option" where
  "getNum d k = (case d k of Some (FNum (Fin x)) \<Rightarrow> Some x | _ \<Rightarrow> None)"

definition getAvailability :: "doc \<Rightarrow> availability option" where
  "getAvailability d =
     (case getStr d ''availability'' of
        None \<Rightarrow> None
      | Some s \<Rightarrow>
          if s = ''available'' then Some Available
          else if s = ''coming_soon'' then Some ComingSoon
          else if s = ''sold_out'' then Some SoldOut
          else if s = ''retiring_soon'' then Some RetiringSoon
          else None)"

definition mistyped :: "doc \<Rightarrow> bool" where
  "mistyped d =
     (list_ex (\<lambda>k. case d k of None \<Rightarrow> False | Some (FStr s) \<Rightarrow> False | Some v \<Rightarrow> True)
        [''setNumber'', ''name'', ''imageUrl'', ''theme'']
      \<or> list_ex (\<lambda>k. case d k of None \<Rightarrow> False | Some (FNum (Fin x)) \<Rightarrow> False | Some v \<Rightarrow> True)
          [''price'', ''pieces''])"

definition asLegoSet :: "doc \<Rightarrow> catalog_item option" where
  "asLegoSet d =
     (if mistyped d then None
      else case getAvailability d of
        None \<Rightarrow> None
      | Some a \<Rightarrow>
          (case (getStr d ''setNumber'', getStr d ''name'', getNum d ''price'',
                 getStr d ''imageUrl'') of
             (Some sn, Some n, Some p, Some i) \<Rightarrow>
               Some (Complete
                 \<lparr> LegoSet.setNumber = sn, name = n, price = p, imageUrl = i,
                   url = (case getStr d ''url'' of Some u \<Rightarrow> u | None \<Rightarrow> []),
                   theme = getStr d ''theme'', themeId = getNum d ''themeId'',
                   pieces = getNum d ''pieces'', year = getNum d ''year'',
                   availability = a \<rparr>)
           | _ \<Rightarrow> Some Incomplete))"

definition availabilityIn :: "doc \<Rightarrow> bool" where
  "availabilityIn d =
     (d ''availability'' = Some (FStr ''available'')
      \<or> d ''availability'' = Some (FStr ''retiring_soon''))"

definition getLegoSetsCatalog :: "world \<Rightarrow> catalog_item list option" where
  "getLegoSetsCatalog w =
     those (map (\<lambda>(k, d). asLegoSet d)
              (take 500 (filter (\<lambda>(k, d). availabilityIn d) (db w ''lego_catalog''))))"

section \<open>Price data functions\<close>

definition getRetailerUrl :: "string \<Rightarrow> string \<Rightarrow> string" where
  "getRetailerUrl r sn =
     (let cleanSetNum = replace sn ''-1'' '''' in
      if r = ''lego'' then ''https://www.lego.com/en-us/product/'' @ cleanSetNum
      else if r = ''amazon'' then ''https://www.amazon.com/s?k=LEGO+'' @ cleanSetNum
      else if r = ''walmart'' then ''https://www.walmart.com/search?q=LEGO+'' @ cleanSetNum
      else if r = ''target'' then ''https://www.target.com/s?searchTerm=LEGO+'' @ cleanSetNum
      else if r = ''best_buy''
        then ''https://www.bestbuy.com/site/searchpage.jsp?st=LEGO+'' @ cleanSetNum
      else if r = ''kohls'' then ''https://www.kohls.com/search.jsp?search=LEGO+'' @ cleanSetNum
      else if r = ''meijer''
        then ''https://www.meijer.com/search.html?searchTerm=LEGO+'' @ cleanSetNum
      else if r = ''fred_meyer''
        then ''https://www.fredmeyer.com/search?query=LEGO+'' @ cleanSetNum
      else if r = ''gamestop'' then ''https://www.gamestop.com/search/?q=LEGO+'' @ cleanSetNum
      else if r = ''entertainment_earth''
        then ''https://www.entertainmentearth.com/s/?query1=LEGO+'' @ cleanSetNum
      else if r = ''shop_disney''
        then ''https://www.shopdisney.com/search?q=LEGO+'' @ cleanSetNum
      else if r = ''toys_r_us'' then ''https://www.toysrus.com/search?q=LEGO+'' @ cleanSetNum
      else if r = ''barnes_noble''
        then ''https://www.barnesandnoble.com/s/LEGO+'' @ cleanSetNum
      else if r = ''sams_club'' then ''https://www.samsclub.com/s/LEGO+'' @ cleanSetNum
      else if r = ''costco''
        then ''https://www.costco.com/CatalogSearch?dept=All&keyword=LEGO+'' @ cleanSetNum
      else if r = ''walgreens''
        then ''https://www.walgreens.com/search/results.jsp?Ntt=LEGO+'' @ cleanSetNum
      else '''')"

text \<open>
  The discount block of \<open>generateSimulatedPrice\<close>. The second and the fourth call of
  \<open>Math.random()\<close> happen only when the draw before them is below its threshold.
\<close>

definition drawDiscount :: "env \<Rightarrow> string \<Rightarrow> world \<Rightarrow> int \<times> world" where
  "drawDiscount e r w =
     (if r \<noteq> ''lego'' then
        (let (x1, w1) = random e w;
             (d1, w2) = (if x1 < 7 / 10
                         then (let (x2, w') = random e w1 in (Math_floor (x2 * 31) + 10, w'))
                         else (0, w1));
             (x3, w3) = random e w2
         in if x3 < 1 / 10
            then (let (x4, w') = random e w3 in (Math_floor (x4 * 21) + 40, w'))
            else (d1, w3))
      else (0, w))"

text \<open>
  \<open>set.availability === "available" && Math.random() > 0.15\<close> draws only for an
  available set.
\<close>

definition drawInStock :: "env \<Rightarrow> LegoSet \<Rightarrow> world \<Rightarrow> bool \<times> world" where
  "drawInStock e s w =
     (if availability s = Available
      then (let (x, w') = random e w in (x > 15 / 100, w'))
      else (False, w))"

definition discounted :: "real \<Rightarrow> int \<Rightarrow> real" where
  "discounted p d = of_int (Math_round (p * (1 - of_int d / 100) * 100)) / 100"

definition generateSimulatedPrice :: "env \<Rightarrow> LegoSet \<Rightarrow> string \<Rightarrow> world \<Rightarrow> PriceData \<times> world" where
  "generateSimulatedPrice e s r w =
     (let (discountPercent, w1) = drawDiscount e r w;
          (stock, w2) = drawInStock e s w1;
          (now, w3) = Timestamp_now e w2
      in (\<lparr> PriceData.setNumber = LegoSet.setNumber s,
            setName = LegoSet.name s,
            retailer = r,
            currentPrice = discounted (price s) discountPercent,
            originalPrice = price s,
            url = getRetailerUrl r (LegoSet.setNumber s),
            inStock = stock,
            lastUpdated = now,
            theme = LegoSet.theme s,
            imageUrl = Some (LegoSet.imageUrl s),
            pieces = LegoSet.pieces s \<rparr>, w3))"

text \<open>
  The document that the client makes of the data of a write to \<open>prices\<close> or \<open>deals\<close>:
  there is none when \<open>imageUrl\<close>, \<open>theme\<close> or \<open>pieces\<close> is \<open>undefined\<close>, and \<open>set\<close>
  throws then.
\<close>

definition priceDoc :: "'a PriceData_scheme \<Rightarrow> doc option" where
  "priceDoc p =
     (case (PriceData.imageUrl p, PriceData.theme p, PriceData.pieces p) of
        (Some i, Some t, Some n) \<Rightarrow>
          Some [''setNumber'' \<mapsto> FStr (PriceData.setNumber p),
                ''setName'' \<mapsto> FStr (setName p),
                ''retailer'' \<mapsto> FStr (retailer p),
                ''currentPrice'' \<mapsto> FNum (Fin (currentPrice p)),
                ''originalPrice'' \<mapsto> FNum (Fin (originalPrice p)),
                ''url'' \<mapsto> FStr (PriceData.url p),
                ''inStock'' \<mapsto> FBool (inStock p),
                ''lastUpdated'' \<mapsto> FTime (lastUpdated p),
                ''imageUrl'' \<mapsto> FStr i,
                ''theme'' \<mapsto> FStr t,
                ''pieces'' \<mapsto> FNum (Fin n)]
      | _ \<Rightarrow> None)"

definition dealDoc :: "DealData \<Rightarrow> doc option" where
  "dealDoc d =
     (case priceDoc d of
        None \<Rightarrow> None
      | Some m \<Rightarrow>
          Some (m ++ [''percentOff'' \<mapsto> FNum (percentOff d),
                      ''savings'' \<mapsto> FNum (Fin (savings d))]))"

definition docId :: "'a PriceData_scheme \<Rightarrow> string" where
  "docId p = PriceData.setNumber p @ ''_'' @ retailer p"

definition savePriceToFirestore :: "PriceData \<Rightarrow> world \<Rightarrow> failure + world" where
  "savePriceToFirestore p w =
     (case priceDoc p of
        None \<Rightarrow> Inl (Thrown (db w) (commits w))
      | Some d \<Rightarrow> Inr (commit [SetMerge ''prices'' (docId p) d] w))"

definition saveDealToFirestore :: "DealData \<Rightarrow> world \<Rightarrow> failure + world" where
  "saveDealToFirestore d w =
     (case dealDoc d of
        None \<Rightarrow> Inl (Thrown (db w) (commits w))
      | Some m \<Rightarrow> Inr (commit [SetMerge ''deals'' (docId d) m] w))"

text \<open>
  The query \<open>where("lastUpdated", "<", cutoff)\<close> matches the documents whose field is a
  timestamp before the cutoff.
\<close>

definition olderThan :: "int \<Rightarrow> doc \<Rightarrow> bool" where
  "olderThan cutoff d = (case d ''lastUpdated'' of Some (FTime t) \<Rightarrow> t < cutoff | _ \<Rightarrow> False)"

function deleteFrom :: "(string \<times> doc) list \<Rightarrow> nat \<Rightarrow> world \<Rightarrow> world" where
  "deleteFrom docs i w =
     (if i < length docs then
        deleteFrom docs (i + batchSize)
          (commit (map (\<lambda>(k, d). Delete ''deals'' k) (slice docs i (i + batchSize))) w)
      else w)"
  by pat_completeness auto
termination
  by (relation "measure (\<lambda>(docs, i, w). length docs - i)") (auto simp: batchSize_def)

declare deleteFrom.simps [simp del]

definition cleanOldDeals :: "env \<Rightarrow> world \<Rightarrow> world" where
  "cleanOldDeals e w =
     (let (now, w1) = Timestamp_now e w;
          cutoff = now - 24 * 60 * 60 * 1000;
          oldDeals = filter (\<lambda>(k, d). olderThan cutoff d) (db w1 ''deals'')
      in if oldDeals = [] then w1 else deleteFrom oldDeals 0 w1)"

section \<open>Scheduled functions and HTTP endpoints\<close>

definition updateLegoCatalog :: "env \<Rightarrow> world \<Rightarrow> world" where
  "updateLegoCatalog e w =
     (let w1 = fetchThemes e w;
          (sets, w2) = fetchFromRebrickable e w1
      in saveLegoSetsCatalog e sets w2)"

definition retailers :: "string list" where
  "retailers =
     [''lego'', ''amazon'', ''walmart'', ''target'', ''best_buy'',
      ''kohls'', ''meijer'', ''fred_meyer'', ''gamestop'',
      ''entertainment_earth'', ''shop_disney'', ''toys_r_us'',
      ''barnes_noble'', ''sams_club'', ''costco'', ''walgreens'']"

text \<open>The two expressions that both price loops compute from an observation.\<close>

definition percentOffOf :: "PriceData \<Rightarrow> jsnum" where
  "percentOffOf p =
     js_round (js_times (js_div (originalPrice p - currentPrice p) (originalPrice p)) 100)"

definition savingsOf :: "PriceData \<Rightarrow> real" where
  "savingsOf p = of_int (Math_round ((originalPrice p - currentPrice p) * 100)) / 100"

definition toDeal :: "PriceData \<Rightarrow> DealData" where
  "toDeal p = PriceData.extend p \<lparr> percentOff = percentOffOf p, savings = savingsOf p \<rparr>"

text \<open>
  The loops of \<open>updatePrices\<close>, over the retailers for one item and over the items. The
  pause of 50 ms after each retailer changes nothing but the time, which the model reads
  from the clock only. An exception of a write leaves both loops. On an incomplete item
  the first iteration throws and has written nothing: \<open>getRetailerUrl\<close> calls \<open>replace\<close>
  on \<open>undefined\<close> when it is \<open>setNumber\<close> that the item lacks, and else the write of the
  price has \<open>setName\<close>, \<open>originalPrice\<close> or \<open>imageUrl\<close> undefined.
\<close>

fun updatePricesRetailers ::
  "env \<Rightarrow> catalog_item \<Rightarrow> string list \<Rightarrow> nat \<times> world \<Rightarrow> failure + nat \<times> world" where
  "updatePricesRetailers e item [] st = Inr st"
| "updatePricesRetailers e Incomplete (r # rs) (dealsFound, w) = Inl (Thrown (db w) (commits w))"
| "updatePricesRetailers e (Complete s) (r # rs) (dealsFound, w) =
     (let (priceData, w1) = generateSimulatedPrice e s r w
      in case savePriceToFirestore priceData w1 of
           Inl x \<Rightarrow> Inl x
         | Inr w2 \<Rightarrow>
             if js_ge (percentOffOf priceData) 10 \<and> inStock priceData
             then (case saveDealToFirestore (toDeal priceData) w2 of
                     Inl x \<Rightarrow> Inl x
                   | Inr w3 \<Rightarrow> updatePricesRetailers e (Complete s) rs (dealsFound + 1, w3))
             else updatePricesRetailers e (Complete s) rs (dealsFound, w2))"

fun updatePricesSets ::
  "env \<Rightarrow> catalog_item list \<Rightarrow> nat \<times> world \<Rightarrow> failure + nat \<times> world" where
  "updatePricesSets e [] st = Inr st"
| "updatePricesSets e (item # items) st =
     (case updatePricesRetailers e item retailers st of
        Inl x \<Rightarrow> Inl x
      | Inr st' \<Rightarrow> updatePricesSets e items st')"

text \<open>
  The job: the catalog query, the fetch and the save of the catalog when the query
  returns nothing, the loops, and the sweep of old deals, which an exception skips.
\<close>

definition updatePrices :: "env \<Rightarrow> world \<Rightarrow> failure + nat \<times> world" where
  "updatePrices e w =
     (case getLegoSetsCatalog w of
        None \<Rightarrow> Inl IllTypedCatalog
      | Some sets0 \<Rightarrow>
          (let (sets, w1) =
                 (if length sets0 = 0
                  then (let (fetched, w') = fetchFromRebrickable e w
                        in (map Complete fetched, saveLegoSetsCatalog e fetched w'))
                  else (sets0, w))
           in case updatePricesSets e (take 100 sets) (0, w1) of
                Inl x \<Rightarrow> Inl x
              | Inr (dealsFound, w2) \<Rightarrow> Inr (dealsFound, cleanOldDeals e w2)))"

text \<open>
  \<open>manualPriceUpdate\<close> has the same loops without the pause, over 50 sets, and keeps the
  first five deals for its response. The response is modelled by the three values it is
  made of; its message and the choice of fields of the sample deals are left out.
\<close>

record manual_state =
  found :: nat
  sampleDeals :: "DealData list"
  world_of :: world

fun manualRetailers ::
  "env \<Rightarrow> catalog_item \<Rightarrow> string list \<Rightarrow> manual_state \<Rightarrow> failure + manual_state" where
  "manualRetailers e item [] st = Inr st"
| "manualRetailers e Incomplete (r # rs) st =
     Inl (Thrown (db (world_of st)) (commits (world_of st)))"
| "manualRetailers e (Complete s) (r # rs) st =
     (let (priceData, w1) = generateSimulatedPrice e s r (world_of st)
      in case savePriceToFirestore priceData w1 of
           Inl x \<Rightarrow> Inl x
         | Inr w2 \<Rightarrow>
             if js_ge (percentOffOf priceData) 10 \<and> inStock priceData
             then (case saveDealToFirestore (toDeal priceData) w2 of
                     Inl x \<Rightarrow> Inl x
                   | Inr w3 \<Rightarrow>
                       manualRetailers e (Complete s) rs
                         \<lparr> found = found st + 1,
                           sampleDeals = (if length (sampleDeals st) < 5
                                          then sampleDeals st @ [toDeal priceData]
                                          else sampleDeals st),
                           world_of = w3 \<rparr>)
             else manualRetailers e (Complete s) rs (st\<lparr>world_of := w2\<rparr>))"

fun manualSets ::
  "env \<Rightarrow> catalog_item list \<Rightarrow> manual_state \<Rightarrow> failure + manual_state" where
  "manualSets e [] st = Inr st"
| "manualSets e (item # items) st =
     (case manualRetailers e item retailers st of
        Inl x \<Rightarrow> Inl x
      | Inr st' \<Rightarrow> manualSets e items st')"

record price_response =
  catalogSize :: nat
  dealsFound :: nat
  responseDeals :: "DealData list"

definition manualPriceUpdate :: "env \<Rightarrow> world \<Rightarrow> failure + price_response \<times> world" where
  "manualPriceUpdate e w =
     (case getLegoSetsCatalog w of
        None \<Rightarrow> Inl IllTypedCatalog
      | Some sets0 \<Rightarrow>
          (let (sets, w1) =
                 (if length sets0 = 0
                  then (let (fetched, w') = fetchFromRebrickable e w
                        in (map Complete fetched, saveLegoSetsCatalog e fetched w'))
                  else (sets0, w))
           in case manualSets e (take 50 sets) \<lparr> found = 0, sampleDeals = [], world_of = w1 \<rparr> of
                Inl x \<Rightarrow> Inl x
              | Inr st \<Rightarrow>
                  Inr (\<lparr> catalogSize = length sets, dealsFound = found st,
                         responseDeals = sampleDeals st \<rparr>,
                       cleanOldDeals e (world_of st))))"

section \<open>Notions and examples for the catalog fetcher\<close>

text \<open>
  How one turn of the pagination loop ends: \<open>Failed\<close> for the \<open>break\<close> of a response that
  is not ok and for the \<open>catch\<close> (a rejected \<open>fetch\<close>, a body that is not JSON),
  \<open>NoResults\<close> for the \<open>break\<close> on an empty page, \<open>LastPage\<close> for the \<open>break\<close> on a page
  without \<open>next\<close>, \<open>NextPage\<close> for \<open>page++\<close>.
\<close>

datatype page_outcome = Failed | NoResults | LastPage "rb_set list" | NextPage "rb_set list"

definition pageOutcome :: "fetch_result \<Rightarrow> page_outcome" where
  "pageOutcome a =
     (case a of
        Rejected \<Rightarrow> Failed
      | Resolved r \<Rightarrow>
          if \<not> ok r then Failed
          else (case json r of
                  InvalidJson \<Rightarrow> Failed
                | Json data \<Rightarrow>
                    (case results data of
                       None \<Rightarrow> NoResults
                     | Some rs \<Rightarrow>
                         if rs = [] then NoResults
                         else if falsy (next_url data) then LastPage rs
                         else NextPage rs)))"

text \<open>The answer to the request for page \<open>j\<close> in a run of the fetcher that starts in \<open>w\<close>.\<close>

definition answer :: "env \<Rightarrow> world \<Rightarrow> nat \<Rightarrow> fetch_result" where
  "answer e w j = fetch e (length (requests w) + (j - 1)) (setsRequest e j)"

text \<open>
  An environment for the examples: an upstream with one page of three entries and a
  server error after it, every random value one half, and a clock that stands still.
\<close>

definition demo_entries :: "rb_set list" where
  "demo_entries =
     [\<lparr> set_num = ''10300-1'', name = ''Time Machine'',
        set_img_url = Some ''https://cdn.example/10300-1.jpg'',
        num_parts = 1872, theme_id = 720, year = 2022 \<rparr>,
      \<lparr> set_num = ''30500-1'', name = ''Pocket Racer'',
        set_img_url = Some ''https://cdn.example/30500-1.jpg'',
        num_parts = 20, theme_id = 610, year = 2023 \<rparr>,
      \<lparr> set_num = ''40600-1'', name = ''City Minifigure Pack'',
        set_img_url = Some ''https://cdn.example/40600-1.jpg'',
        num_parts = 30, theme_id = 52, year = 2023 \<rparr>]"

definition demo_fetch :: "nat \<Rightarrow> request \<Rightarrow> fetch_result" where
  "demo_fetch n req =
     (case req of
        GetSets q \<Rightarrow>
          if page q = 1
          then Resolved \<lparr> ok = True, status = 200,
                          json = Json \<lparr> results = Some demo_entries,
                                        next_url = Some ''https://rebrickable.example/?page=2'' \<rparr> \<rparr>
          else Resolved \<lparr> ok = False, status = 500, json = InvalidJson \<rparr>
      | GetThemes k \<Rightarrow> Rejected)"

definition demo_env :: env where
  "demo_env =
     \<lparr> Math_random = (\<lambda>n. 1 / 2), Date_now = (\<lambda>n. 1700000000000),
       getFullYear = 2023, fetch = demo_fetch \<rparr>"

text \<open>The same environment with an upstream that answers every request with a full page.\<close>

definition endless_env :: env where
  "endless_env =
     demo_env\<lparr>fetch := (\<lambda>n req.
        Resolved \<lparr> ok = True, status = 200,
                   json = Json \<lparr> results = Some demo_entries,
                                 next_url = Some ''https://rebrickable.example/?page=next'' \<rparr> \<rparr>)\<rparr>"

definition demo_world :: world where
  "demo_world = \<lparr> db = (\<lambda>c. []), commits = [], requests = [], randoms = 0, ticks = 0 \<rparr>"
text \<open>The sets that the loop body can push: the images of the entries it does not skip.\<close>

definition converted :: "LegoSet set" where
  "converted = {s. \<exists>r. toLegoSet r = Some s}"

text \<open>A page request fails: the transport fails, or the status is not a success.\<close>

definition pageFails :: "fetch_result \<Rightarrow> bool" where
  "pageFails a = (case a of Rejected \<Rightarrow> True | Resolved r \<Rightarrow> \<not> ok r)"

text \<open>The sets that the first two entries of the example page become; the third is skipped.\<close>

definition demo_set :: LegoSet where
  "demo_set =
     \<lparr> LegoSet.setNumber = ''10300-1'', name = ''Time Machine'', price = 206,
       imageUrl = ''https://cdn.example/10300-1.jpg'',
       url = ''https://www.lego.com/en-us/product/10300'',
       theme = Some ''Icons'', themeId = Some 720, pieces = Some 1872,
       year = Some 2022, availability = Available \<rparr>"

definition pocket_set :: LegoSet where
  "pocket_set =
     \<lparr> LegoSet.setNumber = ''30500-1'', name = ''Pocket Racer'', price = 2,
       imageUrl = ''https://cdn.example/30500-1.jpg'',
       url = ''https://www.lego.com/en-us/product/30500'',
       theme = Some ''Speed Champions'', themeId = Some 610, pieces = Some 20,
       year = Some 2023, availability = Available \<rparr>"

section \<open>Notions and examples for the store operations\<close>

text \<open>
  What the two chunked loops are compared with: the list cut into pieces of \<open>n\<close> elements,
  the last piece shorter when the length is not a multiple of \<open>n\<close>.
\<close>

function chunks :: "nat \<Rightarrow> 'a list \<Rightarrow> 'a list list" where
  "chunks n xs = (if xs = [] \<or> n = 0 then [] else take n xs # chunks n (drop n xs))"
  by pat_completeness auto
termination
  by (relation "measure (\<lambda>(n, xs). length xs)") auto

declare chunks.simps [simp del]

text \<open>
  The write that \<open>saveLegoSetsCatalog\<close> adds to its batch for a set when the clock is at
  its reading \<open>t\<close>, and the writes for a list of sets from the reading \<open>t\<close> on.
\<close>

definition catalogWrite :: "env \<Rightarrow> nat \<Rightarrow> LegoSet \<Rightarrow> write_op" where
  "catalogWrite e t s =
     SetMerge ''lego_catalog'' (LegoSet.setNumber s)
       (legoSetDoc s ++ [''lastUpdated'' \<mapsto> FTime (Date_now e t)])"

fun catalogWrites :: "env \<Rightarrow> nat \<Rightarrow> LegoSet list \<Rightarrow> write_op list" where
  "catalogWrites e t [] = []"
| "catalogWrites e t (s # sets) = catalogWrite e t s # catalogWrites e (Suc t) sets"

text \<open>The document stored under a key of a collection.\<close>

definition stored :: "world \<Rightarrow> string \<Rightarrow> string \<Rightarrow> doc option" where
  "stored w c k = map_of (db w c) k"

text \<open>The commits that a run added to the log of a world.\<close>

definition newCommits :: "world \<Rightarrow> world \<Rightarrow> write_op list list" where
  "newCommits w w' = drop (length (commits w)) (commits w')"

text \<open>
  Examples: a deal store with one deal from two days before the clock of the example
  environment and one from a few hours before it, and stores whose documents have a field
  \<open>note\<close> that no write of the pipeline has.
\<close>

definition stale_deal :: doc where
  "stale_deal = [''setNumber'' \<mapsto> FStr ''10300-1'', ''retailer'' \<mapsto> FStr ''amazon'',
                 ''lastUpdated'' \<mapsto> FTime 1699827200000]"

definition fresh_deal :: doc where
  "fresh_deal = [''setNumber'' \<mapsto> FStr ''10300-1'', ''retailer'' \<mapsto> FStr ''target'',
                 ''lastUpdated'' \<mapsto> FTime 1699990000000]"

definition deals_world :: world where
  "deals_world =
     demo_world\<lparr>db := (\<lambda>c. [])(''deals'' := [(''10300-1_amazon'', stale_deal),
                                              (''10300-1_target'', fresh_deal)])\<rparr>"

definition demo_price :: PriceData where
  "demo_price =
     \<lparr> PriceData.setNumber = ''10300-1'', setName = ''Time Machine'', retailer = ''amazon'',
       currentPrice = 103, originalPrice = 206,
       url = ''https://www.amazon.com/s?k=LEGO+10300'', inStock = True,
       lastUpdated = 1700000000000, theme = Some ''Icons'',
       imageUrl = Some ''https://cdn.example/10300-1.jpg'', pieces = Some 1872 \<rparr>"

definition noted :: doc where
  "noted = [''note'' \<mapsto> FStr ''kept'', ''currentPrice'' \<mapsto> FNum (Fin 1),
            ''price'' \<mapsto> FNum (Fin 1)]"

definition noted_world :: world where
  "noted_world =
     demo_world\<lparr>db := (\<lambda>c. [])(''prices'' := [(''10300-1_amazon'', noted)],
                                  ''deals'' := [(''10300-1_amazon'', noted)],
                                  ''lego_catalog'' := [(''10300-1'', noted)])\<rparr>"

section \<open>Notions and examples for the price job\<close>

text \<open>
  The observations that the price loops generate for a list of pairs of a set and a
  retailer, in the order of the list, from the counters of a world on; and the world once
  they are generated, when nothing is written in between. The loops go through the pairs
  of \<open>List.product sets retailers\<close>: every retailer for the first set, then every retailer
  for the second, and so on.
\<close>

fun observe :: "env \<Rightarrow> (LegoSet \<times> string) list \<Rightarrow> world \<Rightarrow> PriceData list" where
  "observe e [] w = []"
| "observe e ((s, r) # ps) w =
     fst (generateSimulatedPrice e s r w) # observe e ps (snd (generateSimulatedPrice e s r w))"

fun observed :: "env \<Rightarrow> (LegoSet \<times> string) list \<Rightarrow> world \<Rightarrow> world" where
  "observed e [] w = w"
| "observed e ((s, r) # ps) w = observed e ps (snd (generateSimulatedPrice e s r w))"

text \<open>
  The condition under which the loops write a deal, and what they commit for an
  observation that has a document: the write of the price, and after it the write of the
  deal, which has the fields of the price and the two computed ones.
\<close>

definition qualifies :: "PriceData \<Rightarrow> bool" where
  "qualifies p = (js_ge (percentOffOf p) 10 \<and> inStock p)"

definition observationCommits :: "PriceData \<Rightarrow> write_op list list" where
  "observationCommits p =
     (case priceDoc p of
        None \<Rightarrow> []
      | Some d \<Rightarrow>
          [SetMerge ''prices'' (docId p) d]
          # (if qualifies p
             then [[SetMerge ''deals'' (docId p)
                      (d ++ [''percentOff'' \<mapsto> FNum (percentOffOf p),
                             ''savings'' \<mapsto> FNum (Fin (savingsOf p))])]]
             else []))"

text \<open>
  An item from which the loops can write: it is complete and has a theme and a piece
  count, so that no property of its observations is undefined. The loops get through the
  items before the first one that is not writable; \<open>priced\<close> is the list of their sets.
\<close>

definition writable :: "catalog_item \<Rightarrow> bool" where
  "writable item =
     (case item of
        Incomplete \<Rightarrow> False
      | Complete s \<Rightarrow> LegoSet.theme s \<noteq> None \<and> LegoSet.pieces s \<noteq> None)"

fun priced :: "catalog_item list \<Rightarrow> LegoSet list" where
  "priced [] = []"
| "priced (Incomplete # items) = []"
| "priced (Complete s # items) =
     (if LegoSet.theme s \<noteq> None \<and> LegoSet.pieces s \<noteq> None then s # priced items else [])"

text \<open>
  A write that cannot give a catalog document an availability other than \<open>available\<close>: it
  is to another collection, or it sets the field to \<open>available\<close>.
\<close>

definition keepsAvailable :: "write_op \<Rightarrow> bool" where
  "keepsAvailable op =
     (case op of
        SetMerge c k d \<Rightarrow> c \<noteq> ''lego_catalog'' \<or> d ''availability'' = Some (FStr ''available'')
      | Delete c k \<Rightarrow> c \<noteq> ''lego_catalog'')"

text \<open>
  What both price jobs do with the result of the catalog query before their loops: when
  it is empty, they fetch the catalog and save it.
\<close>

definition seeded :: "env \<Rightarrow> catalog_item list \<Rightarrow> world \<Rightarrow> catalog_item list \<times> world" where
  "seeded e sets0 w =
     (if length sets0 = 0
      then (map Complete (fst (fetchFromRebrickable e w)),
            saveLegoSetsCatalog e (fst (fetchFromRebrickable e w)) (snd (fetchFromRebrickable e w)))
      else (sets0, w))"





text \<open>
  A catalog of the two example sets, one whose first set has the reference price 0, and
  one whose first set has no theme.
\<close>

definition free_set :: LegoSet where
  "free_set =
     \<lparr> LegoSet.setNumber = ''10200-1'', name = ''Gift Set'', price = 0,
       imageUrl = ''https://cdn.example/10200-1.jpg'',
       url = ''https://www.lego.com/en-us/product/10200'',
       theme = Some ''LEGO'', themeId = None, pieces = Some 150,
       year = Some 2024, availability = Available \<rparr>"

definition catalog_world :: world where
  "catalog_world =
     demo_world\<lparr>db := (\<lambda>c. [])(''lego_catalog'' := [(''10300-1'', legoSetDoc demo_set),
                                                     (''30500-1'', legoSetDoc pocket_set)])\<rparr>"

definition free_world :: world where
  "free_world =
     demo_world\<lparr>db := (\<lambda>c. [])(''lego_catalog'' := [(''10200-1'', legoSetDoc free_set),
                                                     (''10300-1'', legoSetDoc demo_set)])\<rparr>"

definition themeless_set :: LegoSet where
  "themeless_set = demo_set\<lparr>LegoSet.theme := None\<rparr>"

definition themeless_world :: world where
  "themeless_world =
     demo_world\<lparr>db := (\<lambda>c. [])(''lego_catalog'' := [(''10300-1'', legoSetDoc themeless_set),
                                                     (''30500-1'', legoSetDoc pocket_set)])\<rparr>"

section \<open>Properties of the catalog fetcher\<close>

lemma estimatedPrice_ge2: "20 \<le> n \<Longrightarrow> 2 \<le> estimatedPrice n"
  by (simp add: estimatedPrice_def Math_round_def le_floor_iff)

lemma toLegoSet_Some:
  assumes "toLegoSet r = Some s"
  shows "20 \<le> num_parts r" and "availability s = Available"
    and "price s = (if estimatedPrice (num_parts r) > 0
                    then of_int (estimatedPrice (num_parts r)) else 20)"
  using assms by (auto simp: toLegoSet_def split: if_splits)

lemma toLegoSet_price: "toLegoSet r = Some s \<Longrightarrow> 2 \<le> price s"
  using estimatedPrice_ge2[of "num_parts r"] toLegoSet_Some(1,3)[of r s]
  by (auto split: if_splits)

lemma pageSets_converted: "set (pageSets rs) \<subseteq> converted"
  by (induction rs) (auto simp: pageSets_def converted_def split: option.splits)

lemma fetchPages_unfold:
  "fetchPages e p sets w =
     (if p \<le> maxPages then
        (case pageOutcome (fetch e (length (requests w)) (setsRequest e p)) of
           Failed \<Rightarrow> (sets, w\<lparr>requests := requests w @ [setsRequest e p]\<rparr>)
         | NoResults \<Rightarrow> (sets, w\<lparr>requests := requests w @ [setsRequest e p]\<rparr>)
         | LastPage rs \<Rightarrow> (sets @ pageSets rs, w\<lparr>requests := requests w @ [setsRequest e p]\<rparr>)
         | NextPage rs \<Rightarrow>
             fetchPages e (p + 1) (sets @ pageSets rs)
               (w\<lparr>requests := requests w @ [setsRequest e p]\<rparr>))
      else (sets, w))"
  by (subst fetchPages.simps)
     (simp add: pageOutcome_def Let_def split: fetch_result.splits json_result.splits option.splits)

lemma fetchPages_converted:
  "set (fst (fetchPages e p sets w)) \<subseteq> set sets \<union> converted"
proof (induction "maxPages + 1 - p" arbitrary: p sets w)
  case 0
  then show ?case by (subst fetchPages_unfold) simp
next
  case (Suc n)
  let ?w1 = "w\<lparr>requests := requests w @ [setsRequest e p]\<rparr>"
  show ?case
  proof (cases "p \<le> maxPages")
    case False
    then show ?thesis by (subst fetchPages_unfold) simp
  next
    case True
    show ?thesis
    proof (cases "pageOutcome (fetch e (length (requests w)) (setsRequest e p))")
      case Failed
      then show ?thesis using True by (subst fetchPages_unfold) simp
    next
      case NoResults
      then show ?thesis using True by (subst fetchPages_unfold) simp
    next
      case (LastPage rs)
      then show ?thesis using True pageSets_converted[of rs]
        by (subst fetchPages_unfold) auto
    next
      case (NextPage rs)
      have "n = maxPages + 1 - (p + 1)" using Suc.hyps(2) by simp
      from Suc.hyps(1)[OF this, of "sets @ pageSets rs" ?w1] pageSets_converted[of rs]
      have "set (fst (fetchPages e (p + 1) (sets @ pageSets rs) ?w1)) \<subseteq> set sets \<union> converted"
        by auto
      then show ?thesis using True NextPage
        by (subst fetchPages_unfold) simp
    qed
  qed
qed

lemma fetched_from_entry:
  "s \<in> set (fst (fetchFromRebrickable e w)) \<Longrightarrow> \<exists>r. toLegoSet r = Some s"
  using fetchPages_converted[of e 1 "[]" w]
  by (auto simp add: fetchFromRebrickable_def converted_def)

text \<open>The fetcher changes nothing of the world but the log of requests.\<close>

lemma fetchPages_frame:
  "\<exists>l. snd (fetchPages e p sets w) = w\<lparr>requests := requests w @ l\<rparr>
       \<and> length l \<le> maxPages + 1 - p"
proof (induction "maxPages + 1 - p" arbitrary: p sets w)
  case 0
  then have "snd (fetchPages e p sets w) = w\<lparr>requests := requests w @ []\<rparr>"
    by (subst fetchPages_unfold) simp
  then show ?case by (intro exI[of _ "[]"]) simp
next
  case (Suc n)
  let ?w1 = "w\<lparr>requests := requests w @ [setsRequest e p]\<rparr>"
  have p: "p \<le> maxPages" using Suc.hyps(2) by simp
  have one: "?w1 = w\<lparr>requests := requests w @ [setsRequest e p]\<rparr> \<and> length [setsRequest e p] \<le> maxPages + 1 - p"
    using p by simp
  show ?case
  proof (cases "pageOutcome (fetch e (length (requests w)) (setsRequest e p))")
    case (NextPage rs)
    have "n = maxPages + 1 - (p + 1)" using Suc.hyps(2) by simp
    from Suc.hyps(1)[OF this, of "sets @ pageSets rs" ?w1]
    obtain l where l: "snd (fetchPages e (p + 1) (sets @ pageSets rs) ?w1) = ?w1\<lparr>requests := requests ?w1 @ l\<rparr>"
      "length l \<le> maxPages + 1 - (p + 1)" by blast
    have "snd (fetchPages e p sets w) = w\<lparr>requests := requests w @ (setsRequest e p # l)\<rparr>"
      using p NextPage l(1) by (subst fetchPages_unfold) simp
    moreover have "length (setsRequest e p # l) \<le> maxPages + 1 - p" using l(2) p by simp
    ultimately show ?thesis by blast
  next
    case Failed
    then have "snd (fetchPages e p sets w) = ?w1" using p by (subst fetchPages_unfold) simp
    then show ?thesis using one by metis
  next
    case NoResults
    then have "snd (fetchPages e p sets w) = ?w1" using p by (subst fetchPages_unfold) simp
    then show ?thesis using one by metis
  next
    case (LastPage rs)
    then have "snd (fetchPages e p sets w) = ?w1" using p by (subst fetchPages_unfold) simp
    then show ?thesis using one by metis
  qed
qed

lemma fetchPages_run:
  assumes "p \<le> k" and "k \<le> maxPages"
    and "\<forall>j. p \<le> j \<and> j < k \<longrightarrow>
           pageOutcome (fetch e (length (requests w) + (j - p)) (setsRequest e j)) = NextPage (rs j)"
    and "pageOutcome (fetch e (length (requests w) + (k - p)) (setsRequest e k)) = Failed"
  shows "fetchPages e p sets w =
           (sets @ concat (map (\<lambda>j. pageSets (rs j)) [p..<k]),
            w\<lparr>requests := requests w @ map (setsRequest e) [p..<Suc k]\<rparr>)"
  using assms
proof (induction "k - p" arbitrary: p sets w)
  case 0
  then have "p = k" by simp
  with 0 show ?case by (subst fetchPages_unfold) simp
next
  case (Suc n)
  let ?w1 = "w\<lparr>requests := requests w @ [setsRequest e p]\<rparr>"
  have pk: "p < k" using Suc.hyps(2) by simp
  have here: "pageOutcome (fetch e (length (requests w)) (setsRequest e p)) = NextPage (rs p)"
    using Suc.prems(3) pk by force
  have n: "n = k - (p + 1)" using Suc.hyps(2) by simp
  have len: "length (requests ?w1) = Suc (length (requests w))" by simp
  have shift: "Suc (length (requests w)) + (j - (p + 1)) = length (requests w) + (j - p)"
    if "p + 1 \<le> j" for j
    using that by arith
  have later: "\<forall>j. p + 1 \<le> j \<and> j < k \<longrightarrow>
      pageOutcome (fetch e (length (requests ?w1) + (j - (p + 1))) (setsRequest e j)) = NextPage (rs j)"
  proof (intro allI impI)
    fix j assume j: "p + 1 \<le> j \<and> j < k"
    then have j1: "p + 1 \<le> j" and j2: "p \<le> j \<and> j < k" by simp_all
    show "pageOutcome (fetch e (length (requests ?w1) + (j - (p + 1))) (setsRequest e j)) = NextPage (rs j)"
      unfolding len shift[OF j1] by (rule Suc.prems(3)[rule_format, OF j2])
  qed
  have k1: "p + 1 \<le> k" using pk by simp
  have last: "pageOutcome (fetch e (length (requests ?w1) + (k - (p + 1))) (setsRequest e k)) = Failed"
    unfolding len shift[OF k1] by (rule Suc.prems(4))
  have rec: "fetchPages e (p + 1) (sets @ pageSets (rs p)) ?w1 =
      ((sets @ pageSets (rs p)) @ concat (map (\<lambda>j. pageSets (rs j)) [p + 1..<k]),
       ?w1\<lparr>requests := requests ?w1 @ map (setsRequest e) [p + 1..<Suc k]\<rparr>)"
    using Suc.hyps(1)[OF n _ Suc.prems(2) later last] pk by simp
  have l1: "[p..<k] = p # [p + 1..<k]" using pk by (simp add: upt_conv_Cons)
  have l2: "[p..<Suc k] = p # [p + 1..<Suc k]" using pk by (simp add: upt_conv_Cons)
  show ?case
    using pk Suc.prems(2) here rec
    by (subst fetchPages_unfold) (simp add: l1 l2)
qed

lemma fetchPages_endless:
  assumes "m = maxPages + 1" and "p \<le> m"
    and "\<forall>j. p \<le> j \<and> j < m \<longrightarrow>
           pageOutcome (fetch e (length (requests w) + (j - p)) (setsRequest e j)) = NextPage (rs j)"
  shows "fetchPages e p sets w =
           (sets @ concat (map (\<lambda>j. pageSets (rs j)) [p..<m]),
            w\<lparr>requests := requests w @ map (setsRequest e) [p..<m]\<rparr>)"
  using assms(2,3)
proof (induction "m - p" arbitrary: p sets w)
  case 0
  then have "\<not> p \<le> maxPages" using assms(1) by simp
  then show ?case using 0 by (subst fetchPages_unfold) simp
next
  case (Suc n)
  let ?w1 = "w\<lparr>requests := requests w @ [setsRequest e p]\<rparr>"
  have pm: "p < m" using Suc.hyps(2) by simp
  then have pk: "p \<le> maxPages" using assms(1) by simp
  have here: "pageOutcome (fetch e (length (requests w)) (setsRequest e p)) = NextPage (rs p)"
    using Suc.prems(2) pm by force
  have n: "n = m - (p + 1)" using Suc.hyps(2) by simp
  have len: "length (requests ?w1) = Suc (length (requests w))" by simp
  have shift: "Suc (length (requests w)) + (j - (p + 1)) = length (requests w) + (j - p)"
    if "p + 1 \<le> j" for j
    using that by arith
  have later: "\<forall>j. p + 1 \<le> j \<and> j < m \<longrightarrow>
      pageOutcome (fetch e (length (requests ?w1) + (j - (p + 1))) (setsRequest e j)) = NextPage (rs j)"
  proof (intro allI impI)
    fix j assume j: "p + 1 \<le> j \<and> j < m"
    then have j1: "p + 1 \<le> j" and j2: "p \<le> j \<and> j < m" by simp_all
    show "pageOutcome (fetch e (length (requests ?w1) + (j - (p + 1))) (setsRequest e j)) = NextPage (rs j)"
      unfolding len shift[OF j1] by (rule Suc.prems(2)[rule_format, OF j2])
  qed
  have p1: "p + 1 \<le> m" using pm by simp
  have rec: "fetchPages e (p + 1) (sets @ pageSets (rs p)) ?w1 =
      ((sets @ pageSets (rs p)) @ concat (map (\<lambda>j. pageSets (rs j)) [p + 1..<m]),
       ?w1\<lparr>requests := requests ?w1 @ map (setsRequest e) [p + 1..<m]\<rparr>)"
    by (rule Suc.hyps(1)[OF n p1 later])
  have l1: "[p..<m] = p # [p + 1..<m]" using pm by (simp add: upt_conv_Cons)
  show ?case
    using pk here rec
    by (subst fetchPages_unfold) (simp add: l1)
qed

lemma pageFails_outcome: "pageFails a \<Longrightarrow> pageOutcome a = Failed"
  by (auto simp: pageFails_def pageOutcome_def split: fetch_result.splits)

lemma demo_pageSets: "pageSets demo_entries = [demo_set, pocket_set]"
  by (simp add: demo_entries_def pageSets_def toLegoSet_def estimatedPrice_def Math_round_def
      toLowerCase_def toLowerCase_char_def startsWith_def demo_set_def pocket_set_def THEME_NAMES_def)

lemma demo_answers:
  "pageOutcome (answer demo_env demo_world 1) = NextPage demo_entries"
  "pageFails (answer demo_env demo_world 2)"
  by (simp_all add: answer_def demo_env_def demo_world_def demo_fetch_def setsRequest_def
      pageOutcome_def pageFails_def demo_entries_def)

lemma demo_fetched:
  "fst (fetchFromRebrickable demo_env demo_world) = [demo_set, pocket_set]"
proof -
  have 1: "\<forall>j. 1 \<le> j \<and> j < 2 \<longrightarrow>
      pageOutcome (fetch demo_env (length (requests demo_world) + (j - 1)) (setsRequest demo_env j))
        = NextPage ((\<lambda>j. demo_entries) j)"
  proof (intro allI impI)
    fix j :: nat assume "1 \<le> j \<and> j < 2"
    then have "j = 1" by simp
    then show "pageOutcome (fetch demo_env (length (requests demo_world) + (j - 1)) (setsRequest demo_env j))
        = NextPage ((\<lambda>j. demo_entries) j)"
      using demo_answers(1) by (simp add: answer_def)
  qed
  have 2: "pageOutcome (fetch demo_env (length (requests demo_world) + (2 - 1)) (setsRequest demo_env 2))
             = Failed"
    using pageFails_outcome[OF demo_answers(2)] by (simp add: answer_def)
  have "fetchPages demo_env 1 [] demo_world =
          ([] @ concat (map (\<lambda>j. pageSets demo_entries) [1..<2]),
           demo_world\<lparr>requests := requests demo_world @ map (setsRequest demo_env) [1..<Suc 2]\<rparr>)"
    by (rule fetchPages_run[OF _ _ 1 2]) (simp_all add: maxPages_def)
  then show ?thesis
    by (simp add: fetchFromRebrickable_def demo_pageSets numeral_2_eq_2)
qed

text \<open>Every entry of 20 to 177 pieces that is not skipped gets a price below 20.\<close>

lemma small_sets_below_20:
  assumes "toLegoSet r = Some s" and "num_parts r \<le> 177"
  shows "price s < 20"
proof -
  have "20 \<le> num_parts r" by (rule toLegoSet_Some(1)[OF assms(1)])
  then have "0 < estimatedPrice (num_parts r)" using estimatedPrice_ge2[of "num_parts r"] by simp
  moreover have "estimatedPrice (num_parts r) < 20"
    using assms(2) by (simp add: estimatedPrice_def Math_round_def floor_less_iff)
  ultimately show ?thesis using toLegoSet_Some(3)[OF assms(1)] by simp
qed

text \<open>
  C2. The claim: the estimated reference price of every catalog item the fetcher produces
  is at least 20. The code replaces the estimate by 20 only when it is not positive, so an
  entry of 20 pieces that passes the filters gets the price \<open>round(20 * 0.11) = 2\<close>. The
  comment on that line of the source says \<open>Minimum $20\<close>.
\<close>

theorem estimated_price_below_20:
  "pocket_set \<in> set (fst (fetchFromRebrickable demo_env demo_world)) \<and> price pocket_set = 2"
  by (simp add: demo_fetched) (simp add: pocket_set_def)

text \<open>
  C4. When the request for page \<open>k\<close> fails (the transport fails or the status is not a
  success) after the pages before it were read and continued, the fetcher stops at that
  page: it has sent the requests for the pages \<open>1\<close> to \<open>k\<close> and no other, and it returns,
  as its normal result, the sets of the pages \<open>1\<close> to \<open>k - 1\<close>.
\<close>

theorem fetch_partial_on_failure:
  assumes "1 \<le> k" and "k \<le> 10"
    and "\<forall>j. 1 \<le> j \<and> j < k \<longrightarrow> pageOutcome (answer e w j) = NextPage (rs j)"
    and "pageFails (answer e w k)"
  shows "fetchFromRebrickable e w =
           (concat (map (\<lambda>j. pageSets (rs j)) [1..<k]),
            w\<lparr>requests := requests w @ map (setsRequest e) [1..<Suc k]\<rparr>)"
proof -
  have "fetchPages e 1 [] w =
          ([] @ concat (map (\<lambda>j. pageSets (rs j)) [1..<k]),
           w\<lparr>requests := requests w @ map (setsRequest e) [1..<Suc k]\<rparr>)"
    using assms(1,2) assms(3) pageFails_outcome[OF assms(4)]
    by (intro fetchPages_run) (simp_all add: maxPages_def answer_def)
  then show ?thesis by (simp add: fetchFromRebrickable_def)
qed

theorem fetch_partial_on_failure_witness:
  "pageOutcome (answer demo_env demo_world 1) = NextPage demo_entries
   \<and> pageFails (answer demo_env demo_world 2)
   \<and> fst (fetchFromRebrickable demo_env demo_world) = [demo_set, pocket_set]
   \<and> length (requests (snd (fetchFromRebrickable demo_env demo_world))) = 2"
proof -
  have h: "\<forall>j. 1 \<le> j \<and> j < 2 \<longrightarrow>
             pageOutcome (answer demo_env demo_world j) = NextPage ((\<lambda>j. demo_entries) j)"
  proof (intro allI impI)
    fix j :: nat assume "1 \<le> j \<and> j < 2"
    then have "j = 1" by simp
    then show "pageOutcome (answer demo_env demo_world j) = NextPage ((\<lambda>j. demo_entries) j)"
      using demo_answers(1) by simp
  qed
  have "fetchFromRebrickable demo_env demo_world =
          (concat (map (\<lambda>j. pageSets demo_entries) [1..<2]),
           demo_world\<lparr>requests := requests demo_world @ map (setsRequest demo_env) [1..<Suc 2]\<rparr>)"
    using fetch_partial_on_failure[of 2 demo_env demo_world "\<lambda>j. demo_entries", OF _ _ h demo_answers(2)]
    by simp
  then show ?thesis
    using demo_answers by (simp add: demo_pageSets numeral_2_eq_2 demo_world_def)
qed

text \<open>
  C7. Whatever the upstream answers, one run of the fetcher ends (the loop is a total
  function) and sends at most 10 requests; it changes nothing else of the world. When
  every page has results and a next link, it sends exactly the requests for the pages 1
  to 10 and returns the sets of these ten pages.
\<close>

theorem fetch_at_most_10_requests:
  "(\<exists>l. snd (fetchFromRebrickable e w) = w\<lparr>requests := requests w @ l\<rparr> \<and> length l \<le> 10)
   \<and> ((\<forall>j. 1 \<le> j \<and> j \<le> 10 \<longrightarrow> pageOutcome (answer e w j) = NextPage (rs j)) \<longrightarrow>
        fetchFromRebrickable e w =
          (concat (map (\<lambda>j. pageSets (rs j)) [1..<11]),
           w\<lparr>requests := requests w @ map (setsRequest e) [1..<11]\<rparr>))"
proof -
  have 1: "\<exists>l. snd (fetchFromRebrickable e w) = w\<lparr>requests := requests w @ l\<rparr> \<and> length l \<le> 10"
    using fetchPages_frame[of e 1 "[]" w]
    by (simp add: fetchFromRebrickable_def maxPages_def)
  have 2: "fetchFromRebrickable e w =
          (concat (map (\<lambda>j. pageSets (rs j)) [1..<11]),
           w\<lparr>requests := requests w @ map (setsRequest e) [1..<11]\<rparr>)"
    if "\<forall>j. 1 \<le> j \<and> j \<le> 10 \<longrightarrow> pageOutcome (answer e w j) = NextPage (rs j)"
  proof -
    have "fetchPages e 1 [] w =
            ([] @ concat (map (\<lambda>j. pageSets (rs j)) [1..<11]),
             w\<lparr>requests := requests w @ map (setsRequest e) [1..<11]\<rparr>)"
      using that by (intro fetchPages_endless) (simp_all add: maxPages_def answer_def)
    then show ?thesis by (simp only: fetchFromRebrickable_def append_Nil)
  qed
  from 1 2 show ?thesis by blast
qed

theorem fetch_at_most_10_requests_witness:
  "pageOutcome (answer endless_env demo_world 10) = NextPage demo_entries
   \<and> length (requests (snd (fetchFromRebrickable endless_env demo_world))) = 10
   \<and> length (fst (fetchFromRebrickable endless_env demo_world)) = 20"
proof -
  have a: "pageOutcome (answer endless_env demo_world j) = NextPage demo_entries" for j
    by (simp add: answer_def endless_env_def demo_env_def pageOutcome_def demo_entries_def)
  then have "\<forall>j. 1 \<le> j \<and> j \<le> 10 \<longrightarrow>
               pageOutcome (answer endless_env demo_world j) = NextPage ((\<lambda>j. demo_entries) j)"
    by simp
  with fetch_at_most_10_requests[of endless_env demo_world "\<lambda>j. demo_entries"]
  have "fetchFromRebrickable endless_env demo_world =
          (concat (map (\<lambda>j. pageSets demo_entries) [1..<11]),
           demo_world\<lparr>requests := requests demo_world @ map (setsRequest endless_env) [1..<11]\<rparr>)"
    by blast
  then show ?thesis
    using a by (simp add: demo_pageSets demo_world_def length_concat comp_def sum_list_triv)
qed

section \<open>Properties of the store operations\<close>

lemma chunks_Nil [simp]: "chunks n [] = []"
  by (subst chunks.simps) simp

lemma chunks_step: "xs \<noteq> [] \<Longrightarrow> 0 < n \<Longrightarrow> chunks n xs = take n xs # chunks n (drop n xs)"
  by (subst chunks.simps) simp

lemma concat_chunks: "0 < n \<Longrightarrow> concat (chunks n xs) = xs"
proof (induction n xs rule: chunks.induct)
  case (1 n xs)
  then show ?case by (cases "xs = []") (simp_all add: chunks_step)
qed

lemma chunks_bounded: "c \<in> set (chunks n xs) \<Longrightarrow> length c \<le> n \<and> c \<noteq> []"
proof (induction n xs rule: chunks.induct)
  case (1 n xs)
  show ?case
  proof (cases "xs = [] \<or> n = 0")
    case True
    with "1.prems" show ?thesis by (subst (asm) chunks.simps) simp
  next
    case False
    with "1.prems" have "c = take n xs \<or> c \<in> set (chunks n (drop n xs))"
      by (subst (asm) chunks.simps) simp
    then show ?thesis using False "1.IH" by auto
  qed
qed

lemma div_ceil_one:
  fixes m n :: nat
  assumes "0 < m" and "m \<le> n"
  shows "(m + n - 1) div n = 1"
proof -
  obtain k where k: "m = Suc k" using assms(1) by (cases m) auto
  have "k < n" using assms(2) k by simp
  then have "(k + n) div n = 1" by simp
  then show ?thesis by (simp add: k)
qed

lemma div_ceil_step:
  fixes m n :: nat
  assumes "0 < n" and "n < m"
  shows "(m + n - 1) div n = Suc ((m - n + n - 1) div n)"
proof -
  have 1: "m + n - 1 = (m - 1) + n" and 2: "m - n + n - 1 = m - 1" using assms by arith+
  show ?thesis unfolding 1 2 using assms(1) by simp
qed

lemma length_chunks: "0 < n \<Longrightarrow> length (chunks n xs) = (length xs + n - 1) div n"
proof (induction n xs rule: chunks.induct)
  case (1 n xs)
  show ?case
  proof (cases "xs = []")
    case True
    then show ?thesis using "1.prems" by simp
  next
    case False
    have ih: "length (chunks n (drop n xs)) = (length (drop n xs) + n - 1) div n"
      using "1.IH" False "1.prems" by simp
    have step: "length (chunks n xs) = Suc (length (chunks n (drop n xs)))"
      using False "1.prems" by (simp add: chunks_step)
    show ?thesis
    proof (cases "length xs \<le> n")
      case True
      then have "drop n xs = []" by simp
      then show ?thesis using div_ceil_one[of "length xs" n] True False step by simp
    next
      case gt: False
      then have "(length xs + n - 1) div n = Suc ((length xs - n + n - 1) div n)"
        using "1.prems" by (intro div_ceil_step) simp_all
      then show ?thesis using step ih by simp
    qed
  qed
qed

lemma length_catalogWrites [simp]: "length (catalogWrites e t sets) = length sets"
  by (induction sets arbitrary: t) simp_all

lemma catalogWrites_append:
  "catalogWrites e t (xs @ ys) = catalogWrites e t xs @ catalogWrites e (t + length xs) ys"
  by (induction xs arbitrary: t) simp_all

lemma take_catalogWrites: "take n (catalogWrites e t sets) = catalogWrites e t (take n sets)"
proof (induction sets arbitrary: t n)
  case Nil
  then show ?case by simp
next
  case (Cons s sets)
  then show ?case by (cases n) simp_all
qed

lemma drop_catalogWrites: "drop n (catalogWrites e t sets) = catalogWrites e (t + n) (drop n sets)"
proof (induction sets arbitrary: t n)
  case Nil
  then show ?case by simp
next
  case (Cons s sets)
  then show ?case by (cases n) simp_all
qed

lemma catalogBatch_eq:
  "catalogBatch e chunk batch w =
     (batch @ catalogWrites e (ticks w) chunk, w\<lparr>ticks := ticks w + length chunk\<rparr>)"
proof (induction chunk arbitrary: batch w)
  case Nil
  then show ?case by simp
next
  case (Cons s chunk)
  then show ?case by (simp add: Timestamp_now_def catalogWrite_def)
qed

lemma saveCatalogFrom_eq:
  "saveCatalogFrom e sets i w =
     w\<lparr>db := fold apply_op (catalogWrites e (ticks w) (drop i sets)) (db w),
       commits := commits w @ chunks batchSize (catalogWrites e (ticks w) (drop i sets)),
       ticks := ticks w + (length sets - i)\<rparr>"
proof (induction e sets i w rule: saveCatalogFrom.induct)
  case (1 e sets i w)
  show ?case
  proof (cases "i < length sets")
    case False
    then show ?thesis by (subst saveCatalogFrom.simps) simp
  next
    case True
    let ?rest = "drop i sets"
    let ?chunk = "slice sets i (i + batchSize)"
    let ?w1 = "w\<lparr>ticks := ticks w + length ?chunk\<rparr>"
    let ?ops = "catalogWrites e (ticks w) ?rest"
    have chunk: "?chunk = take batchSize ?rest" by (simp add: slice_def)
    have ne: "?ops \<noteq> []" using True by (metis length_catalogWrites length_drop list.size(3) zero_less_diff less_numeral_extra(3))
    have batch: "catalogBatch e ?chunk [] w = (take batchSize ?ops, ?w1)"
      by (simp add: catalogBatch_eq chunk take_catalogWrites)
    have len: "length ?chunk = min (length sets - i) batchSize" by (simp add: chunk)
    have rest: "catalogWrites e (ticks w + length ?chunk) (drop (i + batchSize) sets)
                  = drop batchSize ?ops"
    proof (cases "length sets - i \<le> batchSize")
      case True
      then show ?thesis by (simp add: drop_catalogWrites)
    next
      case False
      then have "length ?chunk = batchSize" using len by simp
      then show ?thesis by (simp add: drop_catalogWrites add.commute)
    qed
    have ih: "saveCatalogFrom e sets (i + batchSize) (commit (take batchSize ?ops) ?w1) =
        (commit (take batchSize ?ops) ?w1)
        \<lparr>db := fold apply_op (drop batchSize ?ops) (db (commit (take batchSize ?ops) ?w1)),
          commits := commits (commit (take batchSize ?ops) ?w1) @ chunks batchSize (drop batchSize ?ops),
          ticks := ticks (commit (take batchSize ?ops) ?w1) + (length sets - (i + batchSize))\<rparr>"
      using "1.IH"[OF True batch[symmetric] refl] rest
      by (simp add: commit_def)
    have fold: "fold apply_op (drop batchSize ?ops) (fold apply_op (take batchSize ?ops) (db w))
                  = fold apply_op ?ops (db w)"
      by (metis append_take_drop_id fold_append comp_apply)
    have ch: "chunks batchSize ?ops = take batchSize ?ops # chunks batchSize (drop batchSize ?ops)"
      using ne by (intro chunks_step) (simp_all add: batchSize_def)
    have tk: "ticks w + length ?chunk + (length sets - (i + batchSize)) = ticks w + (length sets - i)"
      using True len by (simp add: min_def)
    show ?thesis
      apply (subst saveCatalogFrom.simps)
      using True tk
      apply (simp add: batch ih)
      apply (simp add: commit_def fold ch)
      done
  qed
qed

lemma deleteFrom_eq:
  "deleteFrom docs i w =
     w\<lparr>db := fold apply_op (map (\<lambda>(k, d). Delete ''deals'' k) (drop i docs)) (db w),
       commits := commits w @ chunks batchSize (map (\<lambda>(k, d). Delete ''deals'' k) (drop i docs))\<rparr>"
proof (induction docs i w rule: deleteFrom.induct)
  case (1 docs i w)
  show ?case
  proof (cases "i < length docs")
    case False
    then show ?thesis by (subst deleteFrom.simps) simp
  next
    case True
    let ?ops = "map (\<lambda>(k, d). Delete ''deals'' k) (drop i docs)"
    have ne: "?ops \<noteq> []" using True by simp
    have batch: "map (\<lambda>(k, d). Delete ''deals'' k) (slice docs i (i + batchSize)) = take batchSize ?ops"
      by (simp add: slice_def take_map)
    have rest: "map (\<lambda>(k, d). Delete ''deals'' k) (drop (i + batchSize) docs) = drop batchSize ?ops"
      by (simp add: drop_map add.commute)
    have fold: "fold apply_op (drop batchSize ?ops) (fold apply_op (take batchSize ?ops) (db w))
                  = fold apply_op ?ops (db w)"
      by (metis append_take_drop_id fold_append comp_apply)
    have ch: "chunks batchSize ?ops = take batchSize ?ops # chunks batchSize (drop batchSize ?ops)"
      using ne by (intro chunks_step) (simp_all add: batchSize_def)
    show ?thesis
      apply (subst deleteFrom.simps)
      using True
      apply (simp only: if_True batch "1.IH"[OF True, unfolded batch] rest)
      apply (simp add: commit_def fold ch)
      done
  qed
qed

lemma cleanOldDeals_eq:
  "cleanOldDeals e w =
     (let dels = map (\<lambda>(k, d). Delete ''deals'' k)
                   (filter (\<lambda>(k, d). olderThan (Date_now e (ticks w) - 86400000) d)
                      (db w ''deals''))
      in w\<lparr>db := fold apply_op dels (db w),
            commits := commits w @ chunks batchSize dels,
            ticks := Suc (ticks w)\<rparr>)"
proof (cases "filter (\<lambda>(k, d). olderThan (Date_now e (ticks w) - 86400000) d) (db w ''deals'') = []")
  case True
  then show ?thesis
    by (simp add: cleanOldDeals_def Timestamp_now_def Let_def)
next
  case False
  then show ?thesis
    by (simp add: cleanOldDeals_def Timestamp_now_def Let_def deleteFrom_eq)
qed

lemma fold_deletes:
  "fold apply_op (map (\<lambda>(k, d). Delete c k) xs) store =
     store(c := filter (\<lambda>(k, d). k \<notin> fst ` set xs) (store c))"
proof (induction xs arbitrary: store)
  case Nil
  then show ?case by simp
next
  case (Cons x xs)
  obtain k d where x: "x = (k, d)" by (cases x)
  have flt: "filter (\<lambda>(k', d). k' \<notin> fst ` set xs) (remove k (store c)) =
        filter (\<lambda>(k', d). k' \<notin> fst ` set (x # xs)) (store c)"
    by (auto simp: remove_def x intro!: filter_cong)
  have "fold apply_op (map (\<lambda>(k, d). Delete c k) (x # xs)) store =
        fold apply_op (map (\<lambda>(k, d). Delete c k) xs) (store(c := remove k (store c)))"
    by (simp add: x)
  also have "\<dots> = (store(c := remove k (store c)))
                      (c := filter (\<lambda>(k', d). k' \<notin> fst ` set xs) (remove k (store c)))"
    by (subst Cons.IH) simp
  also have "\<dots> = store(c := filter (\<lambda>(k', d). k' \<notin> fst ` set (x # xs)) (store c))"
    by (simp only: flt fun_upd_upd)
  finally show ?case .
qed

lemma distinct_key_value:
  "distinct (map fst c) \<Longrightarrow> (k, d) \<in> set c \<Longrightarrow> (k, d') \<in> set c \<Longrightarrow> d = d'"
  by (meson eq_key_imp_eq_value)

lemma filter_selected_keys:
  assumes "distinct (map fst c)"
  shows "filter (\<lambda>(k, d). k \<notin> fst ` set (filter P c)) c = filter (\<lambda>x. \<not> P x) c"
proof (rule filter_cong[OF refl])
  fix x assume x: "x \<in> set c"
  obtain k d where kd: "x = (k, d)" by (cases x)
  have "k \<in> fst ` set (filter P c) \<longleftrightarrow> P (k, d)"
  proof
    assume "k \<in> fst ` set (filter P c)"
    then obtain d' where d': "(k, d') \<in> set c" "P (k, d')" by auto
    with distinct_key_value[OF assms] x kd have "d' = d" by blast
    with d' show "P (k, d)" by simp
  next
    assume "P (k, d)"
    with x kd show "k \<in> fst ` set (filter P c)" by force
  qed
  then show "(case x of (k, d) \<Rightarrow> k \<notin> fst ` set (filter P c)) = (\<not> P x)"
    by (simp add: kd)
qed

lemma cleanOldDeals_deals:
  assumes "distinct (map fst (db w ''deals''))"
  shows "db (cleanOldDeals e w) =
           (db w)(''deals'' := filter (\<lambda>(k, d). \<not> olderThan (Date_now e (ticks w) - 86400000) d)
                                 (db w ''deals''))"
proof -
  have "filter (\<lambda>(k, d). k \<notin> fst ` set (filter (\<lambda>(k, d). olderThan (Date_now e (ticks w) - 86400000) d)
                                            (db w ''deals''))) (db w ''deals'')
        = filter (\<lambda>x. \<not> (\<lambda>(k, d). olderThan (Date_now e (ticks w) - 86400000) d) x) (db w ''deals'')"
    by (rule filter_selected_keys[OF assms])
  also have "\<dots> = filter (\<lambda>(k, d). \<not> olderThan (Date_now e (ticks w) - 86400000) d) (db w ''deals'')"
    by (rule filter_cong) auto
  finally show ?thesis
    by (simp add: cleanOldDeals_eq Let_def fold_deletes)
qed

lemma cleanOldDeals_nothing_old:
  assumes "filter (\<lambda>(k, d). olderThan (Date_now e (ticks w) - 86400000) d) (db w ''deals'') = []"
  shows "cleanOldDeals e w = w\<lparr>ticks := Suc (ticks w)\<rparr>"
  using assms by (simp add: cleanOldDeals_def Timestamp_now_def Let_def)

lemma map_of_upsert_same:
  "map_of (upsert k d c) k = Some (case map_of c k of None \<Rightarrow> d | Some old \<Rightarrow> old ++ d)"
  by (induction c) auto

lemma map_of_upsert_other: "k' \<noteq> k \<Longrightarrow> map_of (upsert k d c) k' = map_of c k'"
  by (induction c) auto

lemma keys_upsert: "set (map fst (upsert k d c)) = insert k (set (map fst c))"
proof (induction c)
  case Nil
  then show ?case by simp
next
  case (Cons x c)
  obtain k' d' where x: "x = (k', d')" by (cases x)
  show ?case
  proof (cases "k' = k")
    case True
    then show ?thesis by (simp add: x insert_absorb)
  next
    case False
    then show ?thesis using Cons.IH by (simp add: x insert_commute)
  qed
qed

lemma distinct_upsert: "distinct (map fst c) \<Longrightarrow> distinct (map fst (upsert k d c))"
proof (induction c)
  case Nil
  then show ?case by simp
next
  case (Cons x c)
  obtain k' d' where x: "x = (k', d')" by (cases x)
  show ?case
  proof (cases "k' = k")
    case True
    then show ?thesis using Cons.prems by (simp add: x)
  next
    case False
    have "k' \<notin> set (map fst (upsert k d c))"
      unfolding keys_upsert using False Cons.prems by (simp add: x)
    then show ?thesis using False Cons by (simp add: x)
  qed
qed

lemma distinct_remove: "distinct (map fst c) \<Longrightarrow> distinct (map fst (remove k c))"
  by (simp add: remove_def distinct_map_filter)

lemma stored_commit_merge:
  "stored (commit [SetMerge c k d] w) c k =
     Some (case stored w c k of None \<Rightarrow> d | Some old \<Rightarrow> old ++ d)"
  by (simp add: stored_def commit_def map_of_upsert_same)

lemma catalog_fold_other_key:
  "k \<notin> LegoSet.setNumber ` set sets \<Longrightarrow>
   map_of ((fold apply_op (catalogWrites e t sets) store) ''lego_catalog'') k
     = map_of (store ''lego_catalog'') k"
  by (induction sets arbitrary: store t) (auto simp: catalogWrite_def map_of_upsert_other)

lemma catalog_fold_preserves:
  assumes "map_of (store ''lego_catalog'') k = Some old"
    and "f \<noteq> ''lastUpdated''"
    and "\<forall>s\<in>set sets. LegoSet.setNumber s = k \<longrightarrow> f \<notin> dom (legoSetDoc s)"
  shows "\<exists>d. map_of ((fold apply_op (catalogWrites e t sets) store) ''lego_catalog'') k = Some d
             \<and> d f = old f"
  using assms
proof (induction sets arbitrary: store old t)
  case Nil
  then show ?case by simp
next
  case (Cons s sets)
  let ?store = "apply_op (catalogWrite e t s) store"
  have "\<exists>old'. map_of (?store ''lego_catalog'') k = Some old' \<and> old' f = old f"
  proof (cases "LegoSet.setNumber s = k")
    case True
    then have "f \<notin> dom (legoSetDoc s)" using Cons.prems(3) by simp
    then have "(old ++ (legoSetDoc s ++ [''lastUpdated'' \<mapsto> FTime (Date_now e t)])) f = old f"
      using Cons.prems(2) by (simp add: map_add_def domIff split: option.splits)
    then show ?thesis using True Cons.prems(1)
      by (simp add: catalogWrite_def map_of_upsert_same)
  next
    case False
    then show ?thesis using Cons.prems(1)
      by (simp add: catalogWrite_def map_of_upsert_other)
  qed
  then obtain old' where old': "map_of (?store ''lego_catalog'') k = Some old'" "old' f = old f"
    by blast
  have "\<forall>s\<in>set sets. LegoSet.setNumber s = k \<longrightarrow> f \<notin> dom (legoSetDoc s)"
    using Cons.prems(3) by simp
  from Cons.IH[of ?store old' "Suc t", OF old'(1) Cons.prems(2) this] old'(2)
  show ?case by simp
qed

lemma catalog_fold_written:
  assumes "s \<in> set sets" and "distinct (map LegoSet.setNumber sets)"
  shows "\<exists>d. map_of ((fold apply_op (catalogWrites e t sets) store) ''lego_catalog'')
               (LegoSet.setNumber s) = Some d
             \<and> (\<forall>g\<in>dom (legoSetDoc s). d g = legoSetDoc s g)"
  using assms
proof (induction sets arbitrary: store t)
  case Nil
  then show ?case by simp
next
  case (Cons x sets)
  let ?store = "apply_op (catalogWrite e t x) store"
  show ?case
  proof (cases "s = x")
    case True
    have notin: "LegoSet.setNumber s \<notin> LegoSet.setNumber ` set sets"
      using Cons.prems(2) True by auto
    have lastUpdated: "''lastUpdated'' \<notin> dom (legoSetDoc s)"
      by (simp add: legoSetDoc_def optional_def dom_def map_add_def split: option.splits)
    have "\<exists>d. map_of (?store ''lego_catalog'') (LegoSet.setNumber s) = Some d
             \<and> (\<forall>g\<in>dom (legoSetDoc s). d g = legoSetDoc s g)"
    proof (cases "map_of (store ''lego_catalog'') (LegoSet.setNumber s)")
      case None
      then show ?thesis using True lastUpdated
        by (auto simp: catalogWrite_def map_of_upsert_same map_add_def)
    next
      case (Some old)
      then show ?thesis using True lastUpdated
        by (auto simp: catalogWrite_def map_of_upsert_same map_add_def split: option.splits)
    qed
    then show ?thesis
      using catalog_fold_other_key[OF notin, of e "Suc t" ?store] by simp
  next
    case False
    then have "s \<in> set sets" and "distinct (map LegoSet.setNumber sets)"
      using Cons.prems by auto
    from Cons.IH[OF this, of "Suc t" ?store] show ?thesis by simp
  qed
qed

text \<open>Every write keeps the keys of every collection distinct.\<close>

lemma apply_op_distinct:
  "\<forall>c. distinct (map fst (store c)) \<Longrightarrow> \<forall>c. distinct (map fst (apply_op op store c))"
  by (cases op) (simp_all add: distinct_upsert distinct_remove)

lemma commit_distinct:
  "\<forall>c. distinct (map fst (db w c)) \<Longrightarrow> \<forall>c. distinct (map fst (db (commit batch w) c))"
proof -
  have "\<forall>c. distinct (map fst (store c)) \<Longrightarrow> \<forall>c. distinct (map fst (fold apply_op batch store c))"
    for store
  proof (induction batch arbitrary: store)
    case Nil
    then show ?case by simp
  next
    case (Cons op batch)
    from Cons.IH[OF apply_op_distinct[OF Cons.prems]] show ?case by simp
  qed
  then show "\<forall>c. distinct (map fst (db w c)) \<Longrightarrow> \<forall>c. distinct (map fst (db (commit batch w) c))"
    by (simp add: commit_def)
qed

text \<open>
  C5. In a deal store whose keys are distinct, the sweep at the clock reading \<open>now\<close>
  leaves exactly the deals that are not older than \<open>now - 24 h\<close>, each as it was and in the
  same order, and leaves every other collection as it was: it deletes the deals whose
  \<open>lastUpdated\<close> is a timestamp strictly before the cutoff and no other. A second sweep
  that reads the same time changes neither the store nor the log of commits.
\<close>

theorem sweep_deletes_exactly_old_deals:
  assumes "distinct (map fst (db w ''deals''))"
  shows "db (cleanOldDeals e w) ''deals'' =
           filter (\<lambda>(k, d). \<not> olderThan (Date_now e (ticks w) - 24 * 60 * 60 * 1000) d)
             (db w ''deals'')
         \<and> (\<forall>c. c \<noteq> ''deals'' \<longrightarrow> db (cleanOldDeals e w) c = db w c)
         \<and> (Date_now e (Suc (ticks w)) = Date_now e (ticks w) \<longrightarrow>
              db (cleanOldDeals e (cleanOldDeals e w)) = db (cleanOldDeals e w)
              \<and> commits (cleanOldDeals e (cleanOldDeals e w)) = commits (cleanOldDeals e w))"
proof -
  let ?w1 = "cleanOldDeals e w"
  let ?cut = "Date_now e (ticks w) - 86400000"
  have db1: "db ?w1 = (db w)(''deals'' := filter (\<lambda>(k, d). \<not> olderThan ?cut d) (db w ''deals''))"
    by (rule cleanOldDeals_deals[OF assms])
  have t1: "ticks ?w1 = Suc (ticks w)"
    by (simp add: cleanOldDeals_eq Let_def)
  have again: "cleanOldDeals e ?w1 = ?w1\<lparr>ticks := Suc (ticks ?w1)\<rparr>"
    if same: "Date_now e (Suc (ticks w)) = Date_now e (ticks w)"
  proof (rule cleanOldDeals_nothing_old)
    have "filter (\<lambda>(k, d). olderThan ?cut d) (filter (\<lambda>(k, d). \<not> olderThan ?cut d) (db w ''deals'')) = []"
      by (auto simp: filter_empty_conv)
    then show "filter (\<lambda>(k, d). olderThan (Date_now e (ticks ?w1) - 86400000) d) (db ?w1 ''deals'') = []"
      by (simp add: t1 same db1)
  qed
  show ?thesis
    using db1 again by simp
qed

theorem sweep_deletes_exactly_old_deals_witness:
  "distinct (map fst (db deals_world ''deals''))
   \<and> Date_now demo_env (Suc (ticks deals_world)) = Date_now demo_env (ticks deals_world)
   \<and> db (cleanOldDeals demo_env deals_world) ''deals'' = [(''10300-1_target'', fresh_deal)]
   \<and> db (cleanOldDeals demo_env (cleanOldDeals demo_env deals_world)) ''deals''
       = [(''10300-1_target'', fresh_deal)]
   \<and> commits (cleanOldDeals demo_env (cleanOldDeals demo_env deals_world))
       = commits (cleanOldDeals demo_env deals_world)"
proof -
  have d: "distinct (map fst (db deals_world ''deals''))"
    by (simp add: deals_world_def demo_world_def)
  have c: "Date_now demo_env (Suc (ticks deals_world)) = Date_now demo_env (ticks deals_world)"
    by (simp add: demo_env_def)
  have f: "filter (\<lambda>(k, d). \<not> olderThan (Date_now demo_env (ticks deals_world) - 24 * 60 * 60 * 1000) d)
             (db deals_world ''deals'') = [(''10300-1_target'', fresh_deal)]"
    by (simp add: deals_world_def demo_world_def demo_env_def olderThan_def stale_deal_def fresh_deal_def)
  from sweep_deletes_exactly_old_deals[OF d, of demo_env] c f d
  show ?thesis by simp
qed

text \<open>
  C6. The commits that \<open>saveLegoSetsCatalog\<close> adds to the log are batches of at most 450
  writes, none empty, that put end to end are the writes for the input sets, one for each
  set and in the order of the input; there are \<open>\<lceil>n / 450\<rceil>\<close> of them for \<open>n\<close> sets. The
  same holds for the deletions of the sweep and the deals it selected.
\<close>

theorem batches_at_most_450:
  "(\<exists>L. commits (saveLegoSetsCatalog e sets w) = commits w @ L
        \<and> concat L = catalogWrites e (ticks w) sets
        \<and> (\<forall>b\<in>set L. length b \<le> 450 \<and> b \<noteq> [])
        \<and> length L = (length sets + 449) div 450)
   \<and> (\<exists>L. commits (cleanOldDeals e w) = commits w @ L
        \<and> concat L = map (\<lambda>(k, d). Delete ''deals'' k)
                       (filter (\<lambda>(k, d). olderThan (Date_now e (ticks w) - 24 * 60 * 60 * 1000) d)
                          (db w ''deals''))
        \<and> (\<forall>b\<in>set L. length b \<le> 450 \<and> b \<noteq> [])
        \<and> length L =
            (length (filter (\<lambda>(k, d). olderThan (Date_now e (ticks w) - 24 * 60 * 60 * 1000) d)
                       (db w ''deals'')) + 449) div 450)"
proof -
  have chunked: "concat (chunks batchSize xs) = xs
      \<and> (\<forall>b\<in>set (chunks batchSize xs). length b \<le> 450 \<and> b \<noteq> [])
      \<and> length (chunks batchSize xs) = (length xs + 449) div 450" for xs :: "write_op list"
    using concat_chunks[of batchSize xs] chunks_bounded[of _ batchSize xs]
      length_chunks[of batchSize xs]
    by (simp add: batchSize_def)
  have "commits (saveLegoSetsCatalog e sets w) =
          commits w @ chunks batchSize (catalogWrites e (ticks w) sets)"
    by (simp add: saveLegoSetsCatalog_def saveCatalogFrom_eq)
  then have 1: "\<exists>L. commits (saveLegoSetsCatalog e sets w) = commits w @ L
        \<and> concat L = catalogWrites e (ticks w) sets
        \<and> (\<forall>b\<in>set L. length b \<le> 450 \<and> b \<noteq> [])
        \<and> length L = (length sets + 449) div 450"
    using chunked[of "catalogWrites e (ticks w) sets"] by (intro exI[of _ "chunks batchSize (catalogWrites e (ticks w) sets)"]) simp
  let ?dels = "map (\<lambda>(k, d). Delete ''deals'' k)
                 (filter (\<lambda>(k, d). olderThan (Date_now e (ticks w) - 24 * 60 * 60 * 1000) d)
                    (db w ''deals''))"
  have "commits (cleanOldDeals e w) = commits w @ chunks batchSize ?dels"
    by (simp add: cleanOldDeals_eq Let_def)
  then have 2: "\<exists>L. commits (cleanOldDeals e w) = commits w @ L
        \<and> concat L = ?dels
        \<and> (\<forall>b\<in>set L. length b \<le> 450 \<and> b \<noteq> [])
        \<and> length L = (length (filter (\<lambda>(k, d). olderThan (Date_now e (ticks w) - 24 * 60 * 60 * 1000) d)
                       (db w ''deals'')) + 449) div 450"
    using chunked[of ?dels] by (intro exI[of _ "chunks batchSize ?dels"]) simp
  from 1 2 show ?thesis by blast
qed

theorem batches_at_most_450_witness:
  "(\<exists>L. commits (saveLegoSetsCatalog demo_env (replicate 1000 demo_set) demo_world)
           = commits demo_world @ L
        \<and> length L = 3 \<and> list_all (\<lambda>b. length b \<le> 450) L)
   \<and> (\<exists>L. commits (cleanOldDeals demo_env deals_world) = commits deals_world @ L
        \<and> concat L = [Delete ''deals'' ''10300-1_amazon'']
        \<and> length L = 1 \<and> list_all (\<lambda>b. length b \<le> 450) L)"
proof -
  note inst = batches_at_most_450[of demo_env "replicate 1000 demo_set" demo_world]
  from inst obtain L where L: "commits (saveLegoSetsCatalog demo_env (replicate 1000 demo_set) demo_world)
          = commits demo_world @ L"
    "\<forall>b\<in>set L. length b \<le> 450 \<and> b \<noteq> []"
    "length L = (length (replicate 1000 demo_set) + 449) div 450"
    by blast
  have "length L = 3" using L(3) by simp
  moreover have "list_all (\<lambda>b. length b \<le> 450) L" using L(2) by (simp add: list_all_iff)
  ultimately have 1: "\<exists>L. commits (saveLegoSetsCatalog demo_env (replicate 1000 demo_set) demo_world)
           = commits demo_world @ L
        \<and> length L = 3 \<and> list_all (\<lambda>b. length b \<le> 450) L"
    using L(1) by blast
  have old: "filter (\<lambda>(k, d). olderThan (Date_now demo_env (ticks deals_world) - 24 * 60 * 60 * 1000) d)
               (db deals_world ''deals'') = [(''10300-1_amazon'', stale_deal)]"
    by (simp add: deals_world_def demo_world_def demo_env_def olderThan_def stale_deal_def fresh_deal_def)
  note inst2 = batches_at_most_450[of demo_env "[]" deals_world]
  from inst2 obtain M where M: "commits (cleanOldDeals demo_env deals_world) = commits deals_world @ M"
    "concat M = map (\<lambda>(k, d). Delete ''deals'' k)
                  (filter (\<lambda>(k, d). olderThan (Date_now demo_env (ticks deals_world) - 24 * 60 * 60 * 1000) d)
                     (db deals_world ''deals''))"
    "\<forall>b\<in>set M. length b \<le> 450 \<and> b \<noteq> []"
    "length M = (length (filter (\<lambda>(k, d). olderThan (Date_now demo_env (ticks deals_world) - 24 * 60 * 60 * 1000) d)
                     (db deals_world ''deals'')) + 449) div 450"
    by blast
  have "concat M = [Delete ''deals'' ''10300-1_amazon'']" using M(2) unfolding old by simp
  moreover have "length M = 1" using M(4) unfolding old by simp
  moreover have "list_all (\<lambda>b. length b \<le> 450) M" using M(3) by (simp add: list_all_iff)
  ultimately have 2: "\<exists>L. commits (cleanOldDeals demo_env deals_world) = commits deals_world @ L
        \<and> concat L = [Delete ''deals'' ''10300-1_amazon'']
        \<and> length L = 1 \<and> list_all (\<lambda>b. length b \<le> 450) L"
    using M(1) by blast
  from 1 2 show ?thesis by blast
qed

lemma priceDoc_Some:
  "priceDoc p = Some d \<longleftrightarrow>
     (\<exists>i t n. PriceData.imageUrl p = Some i \<and> PriceData.theme p = Some t
              \<and> PriceData.pieces p = Some n
              \<and> d = [''setNumber'' \<mapsto> FStr (PriceData.setNumber p),
                     ''setName'' \<mapsto> FStr (setName p),
                     ''retailer'' \<mapsto> FStr (retailer p),
                     ''currentPrice'' \<mapsto> FNum (Fin (currentPrice p)),
                     ''originalPrice'' \<mapsto> FNum (Fin (originalPrice p)),
                     ''url'' \<mapsto> FStr (PriceData.url p),
                     ''inStock'' \<mapsto> FBool (inStock p),
                     ''lastUpdated'' \<mapsto> FTime (lastUpdated p),
                     ''imageUrl'' \<mapsto> FStr i,
                     ''theme'' \<mapsto> FStr t,
                     ''pieces'' \<mapsto> FNum (Fin n)])"
  unfolding priceDoc_def by (auto split: option.splits)

lemma priceDoc_None:
  "priceDoc p = None \<longleftrightarrow>
     (PriceData.imageUrl p = None \<or> PriceData.theme p = None \<or> PriceData.pieces p = None)"
  unfolding priceDoc_def by (simp split: option.splits)

lemma priceDoc_other:
  assumes "priceDoc p = Some d"
    and "f \<notin> set [''setNumber'', ''setName'', ''retailer'', ''currentPrice'', ''originalPrice'',
                   ''url'', ''inStock'', ''lastUpdated'', ''theme'', ''imageUrl'', ''pieces'']"
  shows "d f = None"
proof -
  from assms(1) obtain i t n where
    "d = [''setNumber'' \<mapsto> FStr (PriceData.setNumber p),
          ''setName'' \<mapsto> FStr (setName p),
          ''retailer'' \<mapsto> FStr (retailer p),
          ''currentPrice'' \<mapsto> FNum (Fin (currentPrice p)),
          ''originalPrice'' \<mapsto> FNum (Fin (originalPrice p)),
          ''url'' \<mapsto> FStr (PriceData.url p),
          ''inStock'' \<mapsto> FBool (inStock p),
          ''lastUpdated'' \<mapsto> FTime (lastUpdated p),
          ''imageUrl'' \<mapsto> FStr i,
          ''theme'' \<mapsto> FStr t,
          ''pieces'' \<mapsto> FNum (Fin n)]"
    unfolding priceDoc_Some by blast
  then show ?thesis using assms(2) by simp
qed

lemma dealDoc_Some:
  "dealDoc q = Some d \<longleftrightarrow>
     (\<exists>m. priceDoc q = Some m
          \<and> d = m ++ [''percentOff'' \<mapsto> FNum (percentOff q), ''savings'' \<mapsto> FNum (Fin (savings q))])"
  unfolding dealDoc_def by (auto split: option.splits)

lemma dealDoc_None: "dealDoc q = None \<longleftrightarrow> priceDoc q = None"
  unfolding dealDoc_def by (simp split: option.splits)

lemma dealDoc_other:
  assumes "dealDoc q = Some d"
    and "f \<notin> set [''setNumber'', ''setName'', ''retailer'', ''currentPrice'', ''originalPrice'',
                   ''url'', ''inStock'', ''lastUpdated'', ''theme'', ''imageUrl'', ''pieces'',
                   ''percentOff'', ''savings'']"
  shows "d f = None"
proof -
  from assms(1) obtain m where m: "priceDoc q = Some m"
    "d = m ++ [''percentOff'' \<mapsto> FNum (percentOff q), ''savings'' \<mapsto> FNum (Fin (savings q))]"
    unfolding dealDoc_Some by blast
  have "m f = None" using priceDoc_other[OF m(1), of f] assms(2) by simp
  then show ?thesis using assms(2) by (simp add: m(2) map_add_def)
qed

lemma legoSetDoc_other:
  "f \<notin> set [''setNumber'', ''name'', ''price'', ''imageUrl'', ''url'', ''availability'',
             ''theme'', ''themeId'', ''pieces'', ''year'']
   \<Longrightarrow> legoSetDoc s f = None"
  by (simp add: legoSetDoc_def optional_def map_add_def split: option.splits)

lemma priceDoc_toDeal [simp]: "priceDoc (toDeal p) = priceDoc p"
  by (cases "PriceData.imageUrl p"; cases "PriceData.theme p"; cases "PriceData.pieces p")
     (simp_all add: priceDoc_def toDeal_def PriceData.defs)

lemma dealDoc_toDeal:
  "dealDoc (toDeal p) =
     map_option (\<lambda>m. m ++ [''percentOff'' \<mapsto> FNum (percentOffOf p),
                            ''savings'' \<mapsto> FNum (Fin (savingsOf p))]) (priceDoc p)"
proof -
  have "percentOff (toDeal p) = percentOffOf p" "savings (toDeal p) = savingsOf p"
    by (simp_all add: toDeal_def PriceData.defs)
  then show ?thesis
    by (cases "priceDoc p") (simp_all add: dealDoc_def)
qed

lemma dealDoc_toDeal_fields:
  assumes "dealDoc (toDeal p) = Some d"
  shows "d ''percentOff'' = Some (FNum (percentOffOf p))"
    and "d ''savings'' = Some (FNum (Fin (savingsOf p)))"
  using assms by (auto simp: dealDoc_toDeal)

lemma docId_toDeal [simp]: "docId (toDeal p) = docId p"
  by (simp add: docId_def toDeal_def PriceData.defs)

lemma savePriceToFirestore_Some:
  "priceDoc p = Some d \<Longrightarrow>
   savePriceToFirestore p w = Inr (commit [SetMerge ''prices'' (docId p) d] w)"
  by (simp add: savePriceToFirestore_def)

lemma savePriceToFirestore_None:
  "priceDoc p = None \<Longrightarrow> savePriceToFirestore p w = Inl (Thrown (db w) (commits w))"
  by (simp add: savePriceToFirestore_def)

lemma saveDealToFirestore_Some:
  "dealDoc q = Some d \<Longrightarrow>
   saveDealToFirestore q w = Inr (commit [SetMerge ''deals'' (docId q) d] w)"
  by (simp add: saveDealToFirestore_def)

lemma saveDealToFirestore_None:
  "dealDoc q = None \<Longrightarrow> saveDealToFirestore q w = Inl (Thrown (db w) (commits w))"
  by (simp add: saveDealToFirestore_def)

text \<open>
  C8. A write of the pipeline to a key that already has a document keeps every field of
  the stored document that the new record does not have, and gives every field of the new
  record the new value: for a price, for a deal, and for the catalog, where a field is
  kept when no set written under that key has it (\<open>lastUpdated\<close> is always written) and
  where, the set numbers of the input being distinct, the stored document has the fields
  of its set. The write of a price or of a deal with an undefined property throws, and
  the store and the log of commits are as before: the stored document keeps all its
  fields.
\<close>

theorem merge_keeps_absent_fields:
  "(stored w ''prices'' (docId p) = Some old \<and> priceDoc p = Some new \<and> f \<notin> dom new \<longrightarrow>
      (\<exists>w' d. savePriceToFirestore p w = Inr w'
           \<and> stored w' ''prices'' (docId p) = Some d
           \<and> d f = old f \<and> (\<forall>g\<in>dom new. d g = new g)))
   \<and> (priceDoc p = None \<longrightarrow> savePriceToFirestore p w = Inl (Thrown (db w) (commits w)))
   \<and> (stored w ''deals'' (docId q) = Some old \<and> dealDoc q = Some new' \<and> f \<notin> dom new' \<longrightarrow>
      (\<exists>w' d. saveDealToFirestore q w = Inr w'
           \<and> stored w' ''deals'' (docId q) = Some d
           \<and> d f = old f \<and> (\<forall>g\<in>dom new'. d g = new' g)))
   \<and> (dealDoc q = None \<longrightarrow> saveDealToFirestore q w = Inl (Thrown (db w) (commits w)))
   \<and> (stored w ''lego_catalog'' k = Some old \<and> f \<noteq> ''lastUpdated''
        \<and> (\<forall>s\<in>set sets. LegoSet.setNumber s = k \<longrightarrow> f \<notin> dom (legoSetDoc s)) \<longrightarrow>
      (\<exists>d. stored (saveLegoSetsCatalog e sets w) ''lego_catalog'' k = Some d \<and> d f = old f))
   \<and> (s \<in> set sets \<and> distinct (map LegoSet.setNumber sets) \<longrightarrow>
      (\<exists>d. stored (saveLegoSetsCatalog e sets w) ''lego_catalog'' (LegoSet.setNumber s) = Some d
           \<and> (\<forall>g\<in>dom (legoSetDoc s). d g = legoSetDoc s g)))"
proof -
  have single: "\<exists>d. stored (commit [SetMerge c key m] w) c key = Some d
                   \<and> d f = old f \<and> (\<forall>g\<in>dom m. d g = m g)"
    if "stored w c key = Some old" and "f \<notin> dom m" for c key m
    using that by (auto simp: stored_commit_merge map_add_def domIff split: option.splits)
  have db: "db (saveLegoSetsCatalog e sets w) = fold apply_op (catalogWrites e (ticks w) sets) (db w)"
    by (simp add: saveLegoSetsCatalog_def saveCatalogFrom_eq)
  have price: "\<exists>w' d. savePriceToFirestore p w = Inr w'
           \<and> stored w' ''prices'' (docId p) = Some d
           \<and> d f = old f \<and> (\<forall>g\<in>dom new. d g = new g)"
    if "stored w ''prices'' (docId p) = Some old" "priceDoc p = Some new" "f \<notin> dom new"
    using single[OF that(1) that(3)] savePriceToFirestore_Some[OF that(2), of w] by blast
  have deal: "\<exists>w' d. saveDealToFirestore q w = Inr w'
           \<and> stored w' ''deals'' (docId q) = Some d
           \<and> d f = old f \<and> (\<forall>g\<in>dom new'. d g = new' g)"
    if "stored w ''deals'' (docId q) = Some old" "dealDoc q = Some new'" "f \<notin> dom new'"
    using single[OF that(1) that(3)] saveDealToFirestore_Some[OF that(2), of w] by blast
  have cat1: "\<exists>d. stored (saveLegoSetsCatalog e sets w) ''lego_catalog'' k = Some d \<and> d f = old f"
    if "stored w ''lego_catalog'' k = Some old" "f \<noteq> ''lastUpdated''"
      "\<forall>s\<in>set sets. LegoSet.setNumber s = k \<longrightarrow> f \<notin> dom (legoSetDoc s)"
    using catalog_fold_preserves[of "db w" k old f sets e "ticks w"] that
    unfolding stored_def db by blast
  have cat2: "\<exists>d. stored (saveLegoSetsCatalog e sets w) ''lego_catalog'' (LegoSet.setNumber s) = Some d
           \<and> (\<forall>g\<in>dom (legoSetDoc s). d g = legoSetDoc s g)"
    if "s \<in> set sets" "distinct (map LegoSet.setNumber sets)"
    using catalog_fold_written[of s sets e "ticks w" "db w"] that
    unfolding stored_def db by blast
  show ?thesis
    using price deal cat1 cat2 savePriceToFirestore_None[of p w] saveDealToFirestore_None[of q w]
    by blast
qed

theorem merge_keeps_absent_fields_witness:
  "(\<exists>w' d. savePriceToFirestore demo_price noted_world = Inr w'
        \<and> stored w' ''prices'' ''10300-1_amazon'' = Some d
        \<and> d ''note'' = Some (FStr ''kept'') \<and> d ''currentPrice'' = Some (FNum (Fin 103)))
   \<and> savePriceToFirestore (demo_price\<lparr>PriceData.theme := None\<rparr>) noted_world
       = Inl (Thrown (db noted_world) (commits noted_world))
   \<and> (\<exists>w' d. saveDealToFirestore (toDeal demo_price) noted_world = Inr w'
        \<and> stored w' ''deals'' ''10300-1_amazon'' = Some d
        \<and> d ''note'' = Some (FStr ''kept'') \<and> d ''percentOff'' = Some (FNum (Fin 50)))
   \<and> saveDealToFirestore (toDeal (demo_price\<lparr>PriceData.pieces := None\<rparr>)) noted_world
       = Inl (Thrown (db noted_world) (commits noted_world))
   \<and> (\<exists>d. stored (saveLegoSetsCatalog demo_env [demo_set, pocket_set] noted_world)
              ''lego_catalog'' ''10300-1'' = Some d
        \<and> d ''note'' = Some (FStr ''kept''))
   \<and> (\<exists>d. stored (saveLegoSetsCatalog demo_env [demo_set, pocket_set] noted_world)
              ''lego_catalog'' ''10300-1'' = Some d
        \<and> d ''price'' = Some (FNum (Fin 206)))"
proof -
  obtain new where new: "priceDoc demo_price = Some new"
    by (simp add: priceDoc_def demo_price_def)
  obtain new' where new': "dealDoc (toDeal demo_price) = Some new'"
    by (simp add: dealDoc_toDeal new)
  note inst = merge_keeps_absent_fields[where w = noted_world and p = demo_price and old = noted
      and f = "''note''" and q = "toDeal demo_price" and k = "''10300-1''"
      and sets = "[demo_set, pocket_set]" and s = demo_set and e = demo_env
      and new = new and new' = new']
  note thrown = merge_keeps_absent_fields[where w = noted_world
      and p = "demo_price\<lparr>PriceData.theme := None\<rparr>"
      and q = "toDeal (demo_price\<lparr>PriceData.pieces := None\<rparr>)"]
  have id1: "docId demo_price = ''10300-1_amazon''"
    by (simp add: docId_def demo_price_def)
  have id2: "docId (toDeal demo_price) = ''10300-1_amazon''"
    by (simp add: id1)
  have id3: "LegoSet.setNumber demo_set = ''10300-1''" "LegoSet.setNumber pocket_set = ''30500-1''"
    by (simp_all add: demo_set_def pocket_set_def)
  have st: "stored noted_world ''prices'' ''10300-1_amazon'' = Some noted"
    "stored noted_world ''deals'' ''10300-1_amazon'' = Some noted"
    "stored noted_world ''lego_catalog'' ''10300-1'' = Some noted"
    by (simp_all add: stored_def noted_world_def demo_world_def)
  have old: "noted ''note'' = Some (FStr ''kept'')"
    by (simp add: noted_def)
  have n1: "''note'' \<notin> dom new"
    using priceDoc_other[OF new, of "''note''"] by (simp add: domIff)
  have v1: "new ''currentPrice'' = Some (FNum (Fin 103))"
    using new by (auto simp: priceDoc_Some demo_price_def)
  then have c1: "''currentPrice'' \<in> dom new"
    by (simp add: domIff)
  have pct: "percentOffOf demo_price = Fin 50"
    unfolding percentOffOf_def by (simp add: demo_price_def js_div_def Math_round_def)
  have n2: "''note'' \<notin> dom new'"
    using dealDoc_other[OF new', of "''note''"] by (simp add: domIff)
  have v2: "new' ''percentOff'' = Some (FNum (Fin 50))"
    using dealDoc_toDeal_fields(1)[OF new'] by (simp add: pct)
  then have c2: "''percentOff'' \<in> dom new'"
    by (simp add: domIff)
  have n3: "\<forall>s\<in>set [demo_set, pocket_set]. LegoSet.setNumber s = ''10300-1'' \<longrightarrow>
              ''note'' \<notin> dom (legoSetDoc s)"
    by (simp add: domIff legoSetDoc_other)
  have v3: "legoSetDoc demo_set ''price'' = Some (FNum (Fin 206))"
    by (simp add: legoSetDoc_def optional_def demo_set_def map_add_def)
  then have c3: "''price'' \<in> dom (legoSetDoc demo_set)"
    by (simp add: domIff)
  have ds: "demo_set \<in> set [demo_set, pocket_set] \<and> distinct (map LegoSet.setNumber [demo_set, pocket_set])"
    by (simp add: id3)
  have u1: "priceDoc (demo_price\<lparr>PriceData.theme := None\<rparr>) = None"
    by (simp add: priceDoc_None)
  have u2: "dealDoc (toDeal (demo_price\<lparr>PriceData.pieces := None\<rparr>)) = None"
    by (simp add: dealDoc_None priceDoc_None)
  from inst have
    a: "\<exists>w' d. savePriceToFirestore demo_price noted_world = Inr w'
           \<and> stored w' ''prices'' ''10300-1_amazon'' = Some d
           \<and> d ''note'' = noted ''note''
           \<and> (\<forall>g\<in>dom new. d g = new g)"
    and b: "\<exists>w' d. saveDealToFirestore (toDeal demo_price) noted_world = Inr w'
           \<and> stored w' ''deals'' ''10300-1_amazon'' = Some d \<and> d ''note'' = noted ''note''
           \<and> (\<forall>g\<in>dom new'. d g = new' g)"
    and c: "\<exists>d. stored (saveLegoSetsCatalog demo_env [demo_set, pocket_set] noted_world)
              ''lego_catalog'' ''10300-1'' = Some d \<and> d ''note'' = noted ''note''"
    and d: "\<exists>d. stored (saveLegoSetsCatalog demo_env [demo_set, pocket_set] noted_world)
              ''lego_catalog'' ''10300-1'' = Some d
           \<and> (\<forall>g\<in>dom (legoSetDoc demo_set). d g = legoSetDoc demo_set g)"
    using st n1 n2 n3 ds new new' unfolding id1 id2 id3 by blast+
  from thrown u1 u2 have
    t1: "savePriceToFirestore (demo_price\<lparr>PriceData.theme := None\<rparr>) noted_world
           = Inl (Thrown (db noted_world) (commits noted_world))"
    and t2: "saveDealToFirestore (toDeal (demo_price\<lparr>PriceData.pieces := None\<rparr>)) noted_world
           = Inl (Thrown (db noted_world) (commits noted_world))"
    by blast+
  from a c1 v1 old have a': "\<exists>w' d. savePriceToFirestore demo_price noted_world = Inr w'
        \<and> stored w' ''prices'' ''10300-1_amazon'' = Some d
        \<and> d ''note'' = Some (FStr ''kept'') \<and> d ''currentPrice'' = Some (FNum (Fin 103))"
    by metis
  from b c2 v2 old have b': "\<exists>w' d. saveDealToFirestore (toDeal demo_price) noted_world = Inr w'
        \<and> stored w' ''deals'' ''10300-1_amazon'' = Some d
        \<and> d ''note'' = Some (FStr ''kept'') \<and> d ''percentOff'' = Some (FNum (Fin 50))"
    by metis
  from c old have c': "\<exists>d. stored (saveLegoSetsCatalog demo_env [demo_set, pocket_set] noted_world)
              ''lego_catalog'' ''10300-1'' = Some d
        \<and> d ''note'' = Some (FStr ''kept'')"
    by metis
  from d c3 v3 have d': "\<exists>d. stored (saveLegoSetsCatalog demo_env [demo_set, pocket_set] noted_world)
              ''lego_catalog'' ''10300-1'' = Some d
        \<and> d ''price'' = Some (FNum (Fin 206))"
    by metis
  from a' b' c' d' t1 t2 show ?thesis by blast
qed

section \<open>Properties of the price job\<close>

lemma random_frame:
  "random e (w\<lparr>db := D, commits := C\<rparr>) = (fst (random e w), (snd (random e w))\<lparr>db := D, commits := C\<rparr>)"
  by (simp add: random_def)

lemma drawDiscount_frame:
  "drawDiscount e r (w\<lparr>db := D, commits := C\<rparr>) =
     (fst (drawDiscount e r w), (snd (drawDiscount e r w))\<lparr>db := D, commits := C\<rparr>)"
  by (simp add: drawDiscount_def random_def Let_def)

lemma drawInStock_frame:
  "drawInStock e s (w\<lparr>db := D, commits := C\<rparr>) =
     (fst (drawInStock e s w), (snd (drawInStock e s w))\<lparr>db := D, commits := C\<rparr>)"
  by (simp add: drawInStock_def random_def Let_def)

lemma generateSimulatedPrice_frame:
  "generateSimulatedPrice e s r (w\<lparr>db := D, commits := C\<rparr>) =
     (fst (generateSimulatedPrice e s r w),
      (snd (generateSimulatedPrice e s r w))\<lparr>db := D, commits := C\<rparr>)"
  by (simp add: generateSimulatedPrice_def drawDiscount_frame drawInStock_frame
      Timestamp_now_def Let_def case_prod_beta)

lemma drawDiscount_keeps:
  "db (snd (drawDiscount e r w)) = db w" "commits (snd (drawDiscount e r w)) = commits w"
  "requests (snd (drawDiscount e r w)) = requests w" "ticks (snd (drawDiscount e r w)) = ticks w"
  by (simp_all add: drawDiscount_def random_def Let_def)

lemma drawInStock_keeps:
  "db (snd (drawInStock e s w)) = db w" "commits (snd (drawInStock e s w)) = commits w"
  "requests (snd (drawInStock e s w)) = requests w" "ticks (snd (drawInStock e s w)) = ticks w"
  by (simp_all add: drawInStock_def random_def Let_def)

lemma generateSimulatedPrice_keeps:
  "db (snd (generateSimulatedPrice e s r w)) = db w"
  "commits (snd (generateSimulatedPrice e s r w)) = commits w"
  "requests (snd (generateSimulatedPrice e s r w)) = requests w"
  by (simp_all add: generateSimulatedPrice_def drawDiscount_keeps drawInStock_keeps
      Timestamp_now_def Let_def case_prod_beta)

lemma generateSimulatedPrice_fields:
  "originalPrice (fst (generateSimulatedPrice e s r w)) = price s"
  "retailer (fst (generateSimulatedPrice e s r w)) = r"
  "PriceData.setNumber (fst (generateSimulatedPrice e s r w)) = LegoSet.setNumber s"
  "currentPrice (fst (generateSimulatedPrice e s r w)) =
     discounted (price s) (fst (drawDiscount e r w))"
  "inStock (fst (generateSimulatedPrice e s r w)) =
     fst (drawInStock e s (snd (drawDiscount e r w)))"
  by (simp_all add: generateSimulatedPrice_def Let_def case_prod_beta)

lemma observe_frame: "observe e ps (w\<lparr>db := D, commits := C\<rparr>) = observe e ps w"
proof (induction ps arbitrary: w)
  case Nil
  then show ?case by simp
next
  case (Cons x ps)
  obtain s r where x: "x = (s, r)" by (cases x)
  show ?case by (simp add: x generateSimulatedPrice_frame Cons.IH)
qed

lemma observed_frame:
  "observed e ps (w\<lparr>db := D, commits := C\<rparr>) = (observed e ps w)\<lparr>db := D, commits := C\<rparr>"
proof (induction ps arbitrary: w)
  case Nil
  then show ?case by simp
next
  case (Cons x ps)
  obtain s r where x: "x = (s, r)" by (cases x)
  show ?case by (simp add: x generateSimulatedPrice_frame Cons.IH)
qed

lemma observed_keeps:
  "db (observed e ps w) = db w" "commits (observed e ps w) = commits w"
  "requests (observed e ps w) = requests w"
proof (induction ps arbitrary: w)
  case Nil
  { case 1 show ?case by simp }
  { case 2 show ?case by simp }
  { case 3 show ?case by simp }
next
  case (Cons x ps)
  obtain s r where x: "x = (s, r)" by (cases x)
  { case 1 show ?case by (simp add: x Cons.IH generateSimulatedPrice_keeps) }
  { case 2 show ?case by (simp add: x Cons.IH generateSimulatedPrice_keeps) }
  { case 3 show ?case by (simp add: x Cons.IH generateSimulatedPrice_keeps) }
qed

lemma observe_append:
  "observe e (ps @ qs) w = observe e ps w @ observe e qs (observed e ps w)"
proof (induction ps arbitrary: w)
  case Nil
  then show ?case by simp
next
  case (Cons x ps)
  obtain s r where x: "x = (s, r)" by (cases x)
  show ?case by (simp add: x Cons.IH)
qed

lemma observed_append: "observed e (ps @ qs) w = observed e qs (observed e ps w)"
proof (induction ps arbitrary: w)
  case Nil
  then show ?case by simp
next
  case (Cons x ps)
  obtain s r where x: "x = (s, r)" by (cases x)
  show ?case by (simp add: x Cons.IH)
qed

text \<open>The world after a run of commits.\<close>

lemma commit_as_update:
  "commit b w = w\<lparr>db := fold apply_op b (db w), commits := commits w @ [b]\<rparr>"
  by (simp add: commit_def)

lemma writable_Complete:
  "writable (Complete s) \<longleftrightarrow> LegoSet.theme s \<noteq> None \<and> LegoSet.pieces s \<noteq> None"
  by (simp add: writable_def)

lemma generated_priceDoc:
  "priceDoc (fst (generateSimulatedPrice e s r w)) = None \<longleftrightarrow> \<not> writable (Complete s)"
  by (simp add: priceDoc_None generateSimulatedPrice_def Let_def case_prod_beta writable_def)

lemma observe_priceDoc:
  assumes "list_all (\<lambda>(s, r). writable (Complete s)) ps"
  shows "list_all (\<lambda>p. priceDoc p \<noteq> None) (observe e ps w)"
  using assms
proof (induction ps arbitrary: w)
  case Nil
  then show ?case by simp
next
  case (Cons x ps)
  obtain s r where x: "x = (s, r)" by (cases x)
  show ?case using Cons generated_priceDoc[of e s r w] by (auto simp: x)
qed

lemma step_commits:
  assumes "priceDoc p \<noteq> None"
  shows "\<exists>v. savePriceToFirestore p w = Inr v
            \<and> (if qualifies p then saveDealToFirestore (toDeal p) v else Inr v)
              = Inr (w\<lparr>db := fold apply_op (concat (observationCommits p)) (db w),
                       commits := commits w @ observationCommits p\<rparr>)"
proof -
  from assms obtain d where d: "priceDoc p = Some d" by blast
  have deal: "dealDoc (toDeal p) =
                Some (d ++ [''percentOff'' \<mapsto> FNum (percentOffOf p),
                            ''savings'' \<mapsto> FNum (Fin (savingsOf p))])"
    by (simp add: dealDoc_toDeal d)
  show ?thesis
    by (simp add: savePriceToFirestore_Some[OF d] saveDealToFirestore_Some[OF deal]
        observationCommits_def d commit_def)
qed

lemma updatePricesRetailers_Cons:
  "updatePricesRetailers e (Complete s) (r # rs) (n, w) =
     (case savePriceToFirestore (fst (generateSimulatedPrice e s r w))
             (snd (generateSimulatedPrice e s r w)) of
        Inl x \<Rightarrow> Inl x
      | Inr v \<Rightarrow>
          if qualifies (fst (generateSimulatedPrice e s r w))
          then (case saveDealToFirestore (toDeal (fst (generateSimulatedPrice e s r w))) v of
                  Inl x \<Rightarrow> Inl x
                | Inr v' \<Rightarrow> updatePricesRetailers e (Complete s) rs (n + 1, v'))
          else updatePricesRetailers e (Complete s) rs (n, v))"
  by (simp add: qualifies_def case_prod_beta Let_def split: sum.splits)

lemma updatePricesRetailers_throws:
  assumes "\<not> writable item"
  shows "updatePricesRetailers e item (r # rs) (n, w) = Inl (Thrown (db w) (commits w))"
proof (cases item)
  case Incomplete
  then show ?thesis by simp
next
  case (Complete s)
  have "priceDoc (fst (generateSimulatedPrice e s r w)) = None"
    using assms Complete by (simp add: generated_priceDoc)
  then have "savePriceToFirestore (fst (generateSimulatedPrice e s r w))
               (snd (generateSimulatedPrice e s r w)) = Inl (Thrown (db w) (commits w))"
    by (simp add: savePriceToFirestore_None generateSimulatedPrice_keeps)
  then show ?thesis
    unfolding Complete updatePricesRetailers_Cons by simp
qed

lemma updatePricesRetailers_eq:
  assumes "writable (Complete s)"
  shows "updatePricesRetailers e (Complete s) rs (n, w) =
     Inr (n + length (filter qualifies (observe e (map (Pair s) rs) w)),
          (observed e (map (Pair s) rs) w)
            \<lparr>db := fold apply_op (concat (concat (map observationCommits (observe e (map (Pair s) rs) w)))) (db w),
             commits := commits w @ concat (map observationCommits (observe e (map (Pair s) rs) w))\<rparr>)"
proof (induction rs arbitrary: n w)
  case Nil
  then show ?case by simp
next
  case (Cons r rs)
  let ?p = "fst (generateSimulatedPrice e s r w)"
  let ?w1 = "snd (generateSimulatedPrice e s r w)"
  let ?w2 = "?w1\<lparr>db := fold apply_op (concat (observationCommits ?p)) (db w),
                  commits := commits w @ observationCommits ?p\<rparr>"
  have doc: "priceDoc ?p \<noteq> None"
    using assms by (simp add: generated_priceDoc)
  from step_commits[OF doc, of ?w1]
  obtain v where v: "savePriceToFirestore ?p ?w1 = Inr v"
    "(if qualifies ?p then saveDealToFirestore (toDeal ?p) v else Inr v) = Inr ?w2"
    by (auto simp only: generateSimulatedPrice_keeps)
  have unfold: "updatePricesRetailers e (Complete s) (r # rs) (n, w) =
      updatePricesRetailers e (Complete s) rs (n + (if qualifies ?p then 1 else 0), ?w2)"
  proof (cases "qualifies ?p")
    case True
    then have "saveDealToFirestore (toDeal ?p) v = Inr ?w2"
      using v(2) by simp
    then show ?thesis using True v(1)
      by (simp only: updatePricesRetailers_Cons if_True sum.case)
  next
    case False
    then have "v = ?w2"
      using v(2) by simp
    then show ?thesis using False v(1)
      by (simp only: updatePricesRetailers_Cons if_False add_0_right sum.case)
  qed
  show ?case
    unfolding unfold Cons.IH
    by (simp add: observe_frame observed_frame)
qed

lemma priced_Cons:
  "writable item \<Longrightarrow> \<exists>s. item = Complete s \<and> priced (item # items) = s # priced items"
  "\<not> writable item \<Longrightarrow> priced (item # items) = []"
  by (cases item; simp add: writable_def)+

lemma priced_all: "list_all writable items \<Longrightarrow> map Complete (priced items) = items"
proof (induction items)
  case Nil
  then show ?case by simp
next
  case (Cons item items)
  then show ?case using priced_Cons(1)[of item items] by auto
qed

lemma priced_writable: "list_all (\<lambda>s. writable (Complete s)) (priced items)"
proof (induction items)
  case Nil
  then show ?case by simp
next
  case (Cons item items)
  then show ?case by (cases item) (simp_all add: writable_def)
qed

lemma retailers_Cons: "retailers = hd retailers # tl retailers"
  by (simp add: retailers_def)

lemma updatePricesSets_eq:
  "updatePricesSets e items (n, w) =
     (if list_all writable items
      then Inr (n + length (filter qualifies (observe e (List.product (priced items) retailers) w)),
                (observed e (List.product (priced items) retailers) w)
                  \<lparr>db := fold apply_op
                           (concat (concat (map observationCommits
                                              (observe e (List.product (priced items) retailers) w))))
                           (db w),
                   commits := commits w
                              @ concat (map observationCommits
                                          (observe e (List.product (priced items) retailers) w))\<rparr>)
      else Inl (Thrown
                  (fold apply_op
                     (concat (concat (map observationCommits
                                        (observe e (List.product (priced items) retailers) w))))
                     (db w))
                  (commits w
                   @ concat (map observationCommits
                               (observe e (List.product (priced items) retailers) w)))))"
proof (induction items arbitrary: n w)
  case Nil
  then show ?case by simp
next
  case (Cons item items)
  show ?case
  proof (cases "writable item")
    case False
    have "updatePricesRetailers e item retailers (n, w) = Inl (Thrown (db w) (commits w))"
      using updatePricesRetailers_throws[OF False, of e "hd retailers" "tl retailers" n w]
      by (simp only: retailers_Cons[symmetric])
    then show ?thesis
      using False by (simp add: priced_Cons(2)[OF False])
  next
    case True
    from priced_Cons(1)[OF True, of items] obtain s where
      s: "item = Complete s" and p: "priced (Complete s # items) = s # priced items"
      by auto
    have w: "writable (Complete s)" using True s by simp
    show ?thesis
      unfolding s
      by (simp add: w p updatePricesRetailers_eq[OF w] Cons.IH observe_append observed_append
          observe_frame observed_frame observed_keeps del: priced.simps)
  qed
qed

lemma manualRetailers_Cons:
  "manualRetailers e (Complete s) (r # rs) st =
     (case savePriceToFirestore (fst (generateSimulatedPrice e s r (world_of st)))
             (snd (generateSimulatedPrice e s r (world_of st))) of
        Inl x \<Rightarrow> Inl x
      | Inr v \<Rightarrow>
          if qualifies (fst (generateSimulatedPrice e s r (world_of st)))
          then (case saveDealToFirestore
                       (toDeal (fst (generateSimulatedPrice e s r (world_of st)))) v of
                  Inl x \<Rightarrow> Inl x
                | Inr v' \<Rightarrow>
                    manualRetailers e (Complete s) rs
                      \<lparr> found = found st + 1,
                        sampleDeals =
                          (if length (sampleDeals st) < 5
                           then sampleDeals st
                                @ [toDeal (fst (generateSimulatedPrice e s r (world_of st)))]
                           else sampleDeals st),
                        world_of = v' \<rparr>)
          else manualRetailers e (Complete s) rs (st\<lparr>world_of := v\<rparr>))"
  by (simp add: qualifies_def case_prod_beta Let_def split: sum.splits)

lemma manualRetailers_throws:
  assumes "\<not> writable item"
  shows "manualRetailers e item (r # rs) st =
           Inl (Thrown (db (world_of st)) (commits (world_of st)))"
proof (cases item)
  case Incomplete
  then show ?thesis by simp
next
  case (Complete s)
  have "priceDoc (fst (generateSimulatedPrice e s r (world_of st))) = None"
    using assms Complete by (simp add: generated_priceDoc)
  then have "savePriceToFirestore (fst (generateSimulatedPrice e s r (world_of st)))
               (snd (generateSimulatedPrice e s r (world_of st)))
             = Inl (Thrown (db (world_of st)) (commits (world_of st)))"
    by (simp add: savePriceToFirestore_None generateSimulatedPrice_keeps)
  then show ?thesis
    unfolding Complete manualRetailers_Cons by simp
qed

lemma manualRetailers_eq:
  assumes "writable (Complete s)"
  shows "manualRetailers e (Complete s) rs st =
     Inr \<lparr> found = found st + length (filter qualifies (observe e (map (Pair s) rs) (world_of st))),
       sampleDeals =
         sampleDeals st
         @ take (5 - length (sampleDeals st))
             (map toDeal (filter qualifies (observe e (map (Pair s) rs) (world_of st)))),
       world_of =
         (observed e (map (Pair s) rs) (world_of st))
           \<lparr>db := fold apply_op
                    (concat (concat (map observationCommits
                                       (observe e (map (Pair s) rs) (world_of st)))))
                    (db (world_of st)),
            commits := commits (world_of st)
                       @ concat (map observationCommits
                                   (observe e (map (Pair s) rs) (world_of st)))\<rparr> \<rparr>"
proof (induction rs arbitrary: st)
  case Nil
  then show ?case by simp
next
  case (Cons r rs)
  let ?w = "world_of st"
  let ?p = "fst (generateSimulatedPrice e s r ?w)"
  let ?w1 = "snd (generateSimulatedPrice e s r ?w)"
  let ?w2 = "?w1\<lparr>db := fold apply_op (concat (observationCommits ?p)) (db ?w),
                  commits := commits ?w @ observationCommits ?p\<rparr>"
  have doc: "priceDoc ?p \<noteq> None"
    using assms by (simp add: generated_priceDoc)
  from step_commits[OF doc, of ?w1]
  obtain v where v: "savePriceToFirestore ?p ?w1 = Inr v"
    "(if qualifies ?p then saveDealToFirestore (toDeal ?p) v else Inr v) = Inr ?w2"
    by (auto simp only: generateSimulatedPrice_keeps)
  show ?case
  proof (cases "qualifies ?p")
    case True
    then have w2: "saveDealToFirestore (toDeal ?p) v = Inr ?w2"
      using v(2) by simp
    have "manualRetailers e (Complete s) (r # rs) st =
            manualRetailers e (Complete s) rs
              \<lparr> found = found st + 1,
                sampleDeals = (if length (sampleDeals st) < 5
                               then sampleDeals st @ [toDeal ?p] else sampleDeals st),
                world_of = ?w2 \<rparr>"
      using True w2 v(1) by (simp only: manualRetailers_Cons if_True sum.case)
    then show ?thesis
      using True
      by (simp add: Cons.IH observe_frame observed_frame Suc_diff_le take_Cons')
  next
    case False
    then have w2: "v = ?w2"
      using v(2) by simp
    have "manualRetailers e (Complete s) (r # rs) st =
            manualRetailers e (Complete s) rs (st\<lparr>world_of := ?w2\<rparr>)"
      using False w2 v(1) by (simp only: manualRetailers_Cons if_False sum.case)
    then show ?thesis
      using False
      by (simp add: Cons.IH observe_frame observed_frame)
  qed
qed

lemma manualSets_eq:
  "manualSets e items st =
     (if list_all writable items
      then Inr \<lparr> found = found st
               + length (filter qualifies
                           (observe e (List.product (priced items) retailers) (world_of st))),
             sampleDeals =
               sampleDeals st
               @ take (5 - length (sampleDeals st))
                   (map toDeal (filter qualifies
                      (observe e (List.product (priced items) retailers) (world_of st)))),
             world_of =
               (observed e (List.product (priced items) retailers) (world_of st))
                 \<lparr>db := fold apply_op
                          (concat (concat (map observationCommits
                             (observe e (List.product (priced items) retailers) (world_of st)))))
                          (db (world_of st)),
                  commits := commits (world_of st)
                             @ concat (map observationCommits
                                 (observe e (List.product (priced items) retailers) (world_of st)))\<rparr> \<rparr>
      else Inl (Thrown
                  (fold apply_op
                     (concat (concat (map observationCommits
                        (observe e (List.product (priced items) retailers) (world_of st)))))
                     (db (world_of st)))
                  (commits (world_of st)
                   @ concat (map observationCommits
                       (observe e (List.product (priced items) retailers) (world_of st))))))"
proof (induction items arbitrary: st)
  case Nil
  then show ?case by simp
next
  case (Cons item items)
  show ?case
  proof (cases "writable item")
    case False
    have "manualRetailers e item retailers st =
            Inl (Thrown (db (world_of st)) (commits (world_of st)))"
      using manualRetailers_throws[OF False, of e "hd retailers" "tl retailers" st]
      by (simp only: retailers_Cons[symmetric])
    then show ?thesis
      using False by (simp add: priced_Cons(2)[OF False])
  next
    case True
    from priced_Cons(1)[OF True, of items] obtain s where
      s: "item = Complete s" and p: "priced (Complete s # items) = s # priced items"
      by auto
    have w: "writable (Complete s)" using True s by simp
    show ?thesis
      unfolding s
      by (simp add: w p manualRetailers_eq[OF w] Cons.IH observe_append observed_append
          observe_frame observed_frame observed_keeps take_add min_def del: priced.simps)
  qed
qed

lemma observationCommits_eq:
  "observationCommits =
     (\<lambda>p. case (priceDoc p, dealDoc (toDeal p)) of
             (Some d, Some d') \<Rightarrow>
               [SetMerge ''prices'' (docId p) d]
               # (if js_ge (percentOffOf p) 10 \<and> inStock p
                  then [[SetMerge ''deals'' (docId p) d']] else [])
           | _ \<Rightarrow> [])"
proof (rule ext)
  fix p
  show "observationCommits p =
          (case (priceDoc p, dealDoc (toDeal p)) of
             (Some d, Some d') \<Rightarrow>
               [SetMerge ''prices'' (docId p) d]
               # (if js_ge (percentOffOf p) 10 \<and> inStock p
                  then [[SetMerge ''deals'' (docId p) d']] else [])
           | _ \<Rightarrow> [])"
    by (cases "priceDoc p") (simp_all add: observationCommits_def dealDoc_toDeal qualifies_def)
qed

lemma qualifies_eq: "qualifies = (\<lambda>p. js_ge (percentOffOf p) 10 \<and> inStock p)"
  by (rule ext) (simp add: qualifies_def)

lemma priced_documents:
  "list_all (\<lambda>p. priceDoc p \<noteq> None \<and> dealDoc (toDeal p) \<noteq> None)
     (observe e (List.product (priced items) retailers) w)"
proof -
  have "list_all (\<lambda>(s, r). writable (Complete s)) (List.product (priced items) retailers)"
    using priced_writable[of items] by (auto simp: list_all_iff)
  from observe_priceDoc[OF this, of e w] show ?thesis
    by (simp add: list_all_iff dealDoc_None)
qed

text \<open>
  C1. Both price loops (the scheduled one and the one of the HTTP endpoint) get through
  the items of the catalog up to the first one from which they cannot write, that is an
  item that is incomplete or has no theme or no piece count, and throw in the first
  iteration for that item, before its observation is evaluated or anything is written
  for it; when there is no such item they return. Every observation of the items they
  get through is committed to \<open>prices\<close>, and it is followed by a commit to \<open>deals\<close>, under
  the same key, if and only if its percent-off is at least 10 and it is in stock; nothing
  else is committed, and the counter of deals counts these observations. The document of
  the deal has the fields of the price, and
  \<open>percentOff = round((original - current) / original * 100)\<close> and
  \<open>savings = round((original - current) * 100) / 100\<close>.
\<close>

theorem deal_written_iff_qualifies:
  "(let obs = observe e (List.product (priced items) retailers) w;
        written = concat (map (\<lambda>p. case (priceDoc p, dealDoc (toDeal p)) of
                                     (Some d, Some d') \<Rightarrow>
                                       [SetMerge ''prices'' (docId p) d]
                                       # (if js_ge (percentOffOf p) 10 \<and> inStock p
                                          then [[SetMerge ''deals'' (docId p) d']] else [])
                                   | _ \<Rightarrow> []) obs)
    in list_all (\<lambda>p. priceDoc p \<noteq> None \<and> dealDoc (toDeal p) \<noteq> None) obs
       \<and> (if list_all writable items
          then \<exists>w'. updatePricesSets e items (n, w) =
                       Inr (n + length (filter (\<lambda>p. js_ge (percentOffOf p) 10 \<and> inStock p) obs), w')
                    \<and> commits w' = commits w @ written
          else \<exists>D. updatePricesSets e items (n, w) = Inl (Thrown D (commits w @ written))))
   \<and> (let obs = observe e (List.product (priced items) retailers) (world_of st);
          written = concat (map (\<lambda>p. case (priceDoc p, dealDoc (toDeal p)) of
                                       (Some d, Some d') \<Rightarrow>
                                         [SetMerge ''prices'' (docId p) d]
                                         # (if js_ge (percentOffOf p) 10 \<and> inStock p
                                            then [[SetMerge ''deals'' (docId p) d']] else [])
                                     | _ \<Rightarrow> []) obs)
      in if list_all writable items
         then \<exists>st'. manualSets e items st = Inr st'
                   \<and> found st' =
                       found st + length (filter (\<lambda>p. js_ge (percentOffOf p) 10 \<and> inStock p) obs)
                   \<and> commits (world_of st') = commits (world_of st) @ written
         else \<exists>D. manualSets e items st = Inl (Thrown D (commits (world_of st) @ written)))
   \<and> dealDoc (toDeal q) =
       map_option
         (\<lambda>d. d ++ [''percentOff'' \<mapsto>
                      FNum (js_round (js_times (js_div (originalPrice q - currentPrice q)
                                                  (originalPrice q)) 100)),
                    ''savings'' \<mapsto>
                      FNum (Fin (of_int (Math_round ((originalPrice q - currentPrice q) * 100))
                                 / 100))])
         (priceDoc q)"
proof -
  have docs: "dealDoc (toDeal q) =
       map_option
         (\<lambda>d. d ++ [''percentOff'' \<mapsto>
                      FNum (js_round (js_times (js_div (originalPrice q - currentPrice q)
                                                  (originalPrice q)) 100)),
                    ''savings'' \<mapsto>
                      FNum (Fin (of_int (Math_round ((originalPrice q - currentPrice q) * 100))
                                 / 100))])
         (priceDoc q)"
    by (simp add: dealDoc_toDeal percentOffOf_def savingsOf_def)
  show ?thesis
    unfolding Let_def observationCommits_eq[symmetric] qualifies_eq[symmetric]
    using priced_documents[of e items w] docs
    by (simp add: updatePricesSets_eq manualSets_eq)
qed

lemma demo_observations:
  "map (\<lambda>p. (retailer p, currentPrice p, inStock p))
     (observe demo_env (List.product [demo_set] retailers) demo_world) =
   (''lego'', 206, True) # map (\<lambda>r. (r, 309 / 2, True)) (tl retailers)"
  by (simp add: retailers_def generateSimulatedPrice_def drawDiscount_def drawInStock_def
      random_def Timestamp_now_def demo_env_def demo_world_def demo_set_def discounted_def
      Math_round_def Math_floor_def Let_def)

lemma demo_qualifying:
  "map (\<lambda>p. js_ge (percentOffOf p) 10 \<and> inStock p)
     (observe demo_env (List.product [demo_set] retailers) demo_world)
   = False # replicate 15 True"
  by (simp add: retailers_def generateSimulatedPrice_def drawDiscount_def drawInStock_def
      random_def Timestamp_now_def demo_env_def demo_world_def demo_set_def discounted_def
      percentOffOf_def js_div_def Math_round_def Math_floor_def Let_def eval_nat_numeral)

lemma example_writable:
  "writable (Complete demo_set)" "writable (Complete pocket_set)"
  "writable (Complete free_set)" "\<not> writable (Complete themeless_set)"
  by (simp_all add: writable_def demo_set_def pocket_set_def free_set_def themeless_set_def)

lemma example_priced:
  "priced [Complete demo_set] = [demo_set]"
  "priced [Complete themeless_set, Complete demo_set] = []"
  by (simp_all add: demo_set_def themeless_set_def)

theorem deal_written_iff_qualifies_witness:
  "(\<exists>w'. updatePricesSets demo_env [Complete demo_set] (0, demo_world) = Inr (15, w')
         \<and> length (commits w') = 31)
   \<and> (\<exists>st'. manualSets demo_env [Complete demo_set]
               \<lparr> found = 0, sampleDeals = [], world_of = demo_world \<rparr> = Inr st'
          \<and> found st' = 15 \<and> length (commits (world_of st')) = 31)
   \<and> (\<exists>D. updatePricesSets demo_env [Complete themeless_set, Complete demo_set] (0, demo_world)
            = Inl (Thrown D []))
   \<and> (\<exists>D. manualSets demo_env [Complete themeless_set, Complete demo_set]
            \<lparr> found = 0, sampleDeals = [], world_of = demo_world \<rparr> = Inl (Thrown D []))"
proof -
  let ?obs = "observe demo_env (List.product [demo_set] retailers) demo_world"
  let ?f = "\<lambda>p. case (priceDoc p, dealDoc (toDeal p)) of
                   (Some d, Some d') \<Rightarrow>
                     [SetMerge ''prices'' (docId p) d]
                     # (if js_ge (percentOffOf p) 10 \<and> inStock p
                        then [[SetMerge ''deals'' (docId p) d']] else [])
                 | _ \<Rightarrow> []"
  let ?st = "\<lparr> found = 0, sampleDeals = [], world_of = demo_world \<rparr>"
  have f: "length (filter (\<lambda>p. js_ge (percentOffOf p) 10 \<and> inStock p) ?obs) = 15"
    using arg_cong[OF demo_qualifying, of "\<lambda>bs. length (filter id bs)"]
    by (simp add: filter_map comp_def)
  have docs: "list_all (\<lambda>p. priceDoc p \<noteq> None \<and> dealDoc (toDeal p) \<noteq> None) ?obs"
    using priced_documents[of demo_env "[Complete demo_set]" demo_world]
    by (simp only: example_priced)
  have m: "map (\<lambda>p. length (?f p)) ?obs
        = map (\<lambda>b. if b then 2 else 1) (map (\<lambda>p. js_ge (percentOffOf p) 10 \<and> inStock p) ?obs)"
    unfolding map_map comp_def
  proof (rule map_cong[OF refl])
    fix p assume "p \<in> set ?obs"
    then obtain d d' where "priceDoc p = Some d" "dealDoc (toDeal p) = Some d'"
      using docs unfolding list_all_iff by blast
    then show "length (?f p) = (if js_ge (percentOffOf p) 10 \<and> inStock p then 2 else 1)"
      by simp
  qed
  have "length (concat (map ?f ?obs)) = sum_list (map (\<lambda>p. length (?f p)) ?obs)"
    by (simp only: length_concat map_map comp_def)
  then have c: "length (concat (map ?f ?obs)) = 31"
    unfolding m demo_qualifying by (simp add: eval_nat_numeral)
  have w: "commits demo_world = []" "world_of ?st = demo_world"
    by (simp_all add: demo_world_def)
  have all: "list_all writable [Complete demo_set]"
    "\<not> list_all writable [Complete themeless_set, Complete demo_set]"
    by (simp_all add: example_writable)
  note run = deal_written_iff_qualifies[of demo_env "[Complete demo_set]" demo_world 0 ?st]
  note thrown = deal_written_iff_qualifies[of demo_env "[Complete themeless_set, Complete demo_set]"
      demo_world 0 ?st]
  from run have r:
    "\<exists>w'. updatePricesSets demo_env [Complete demo_set] (0, demo_world)
            = Inr (0 + length (filter (\<lambda>p. js_ge (percentOffOf p) 10 \<and> inStock p) ?obs), w')
         \<and> commits w' = commits demo_world @ concat (map ?f ?obs)"
    "\<exists>st'. manualSets demo_env [Complete demo_set] ?st = Inr st'
          \<and> found st' = found ?st + length (filter (\<lambda>p. js_ge (percentOffOf p) 10 \<and> inStock p) ?obs)
          \<and> commits (world_of st') = commits (world_of ?st) @ concat (map ?f ?obs)"
    unfolding Let_def example_priced Eq_TrueI[OF all(1)] if_True w(2) by blast+
  from thrown have t:
    "\<exists>D. updatePricesSets demo_env [Complete themeless_set, Complete demo_set] (0, demo_world)
            = Inl (Thrown D (commits demo_world @ concat (map ?f (observe demo_env (List.product [] retailers) demo_world))))"
    "\<exists>D. manualSets demo_env [Complete themeless_set, Complete demo_set] ?st
            = Inl (Thrown D (commits (world_of ?st) @ concat (map ?f (observe demo_env (List.product [] retailers) (world_of ?st)))))"
    unfolding Let_def example_priced Eq_FalseI[OF all(2)] if_False by blast+
  from r(1) obtain w' where
    "updatePricesSets demo_env [Complete demo_set] (0, demo_world) = Inr (15, w')"
    "length (commits w') = 31"
    using f c w(1) by auto
  moreover from r(2) obtain st' where
    "manualSets demo_env [Complete demo_set] ?st = Inr st'" "found st' = 15"
    "length (commits (world_of st')) = 31"
    using f c w by auto
  moreover from t(1) have
    "\<exists>D. updatePricesSets demo_env [Complete themeless_set, Complete demo_set] (0, demo_world)
            = Inl (Thrown D [])"
    by (simp add: w(1))
  moreover from t(2) have
    "\<exists>D. manualSets demo_env [Complete themeless_set, Complete demo_set] ?st = Inl (Thrown D [])"
    by (simp add: w(1))
  ultimately show ?thesis by blast
qed

lemma percentOffOf_finite: "originalPrice p \<noteq> 0 \<Longrightarrow> \<exists>q. percentOffOf p = Fin q"
  by (simp add: percentOffOf_def js_div_def)

text \<open>
  C10. Every set the fetcher returns has a reference price that is positive, in fact at
  least 2; so in the observation generated from it, for any retailer and any random
  values, the price that the percent-off computation divides by is not zero and the
  percent-off is a finite number.
\<close>

theorem fetched_price_positive:
  assumes "s \<in> set (fst (fetchFromRebrickable e w))"
  shows "0 < price s \<and> 2 \<le> price s
         \<and> (\<forall>e' r w'. originalPrice (fst (generateSimulatedPrice e' s r w')) \<noteq> 0
                      \<and> (\<exists>q. percentOffOf (fst (generateSimulatedPrice e' s r w')) = Fin q))"
proof -
  from fetched_from_entry[OF assms] obtain r where "toLegoSet r = Some s" by blast
  then have p: "2 \<le> price s" by (rule toLegoSet_price)
  then have "originalPrice (fst (generateSimulatedPrice e' s r w')) \<noteq> 0" for e' r w'
    by (simp add: generateSimulatedPrice_fields)
  then show ?thesis using p percentOffOf_finite by auto
qed

theorem fetched_price_positive_witness:
  "pocket_set \<in> set (fst (fetchFromRebrickable demo_env demo_world))
   \<and> 0 < price pocket_set
   \<and> (\<exists>q. percentOffOf (fst (generateSimulatedPrice demo_env pocket_set ''amazon'' demo_world)) = Fin q)"
proof -
  have m: "pocket_set \<in> set (fst (fetchFromRebrickable demo_env demo_world))"
    by (simp add: demo_fetched)
  from fetched_price_positive[OF m] m show ?thesis by blast
qed

lemma updatePrices_eq:
  "updatePrices e w =
     (case getLegoSetsCatalog w of
        None \<Rightarrow> Inl IllTypedCatalog
      | Some sets0 \<Rightarrow>
          (case updatePricesSets e (take 100 (fst (seeded e sets0 w))) (0, snd (seeded e sets0 w)) of
             Inl x \<Rightarrow> Inl x
           | Inr st \<Rightarrow> Inr (fst st, cleanOldDeals e (snd st))))"
  by (simp add: updatePrices_def seeded_def Let_def case_prod_beta
      split: option.splits sum.splits)

lemma manualPriceUpdate_eq:
  "manualPriceUpdate e w =
     (case getLegoSetsCatalog w of
        None \<Rightarrow> Inl IllTypedCatalog
      | Some sets0 \<Rightarrow>
          (case manualSets e (take 50 (fst (seeded e sets0 w)))
                  \<lparr> found = 0, sampleDeals = [], world_of = snd (seeded e sets0 w) \<rparr> of
             Inl x \<Rightarrow> Inl x
           | Inr st \<Rightarrow>
               Inr (\<lparr> catalogSize = length (fst (seeded e sets0 w)), dealsFound = found st,
                      responseDeals = sampleDeals st \<rparr>,
                    cleanOldDeals e (world_of st))))"
  by (simp add: manualPriceUpdate_def seeded_def Let_def case_prod_beta
      split: option.splits sum.splits)

lemma updatePricesSets_commits:
  "updatePricesSets e items (n, w) = Inr (n', w') \<Longrightarrow>
     \<exists>obs. commits w' = commits w @ concat (map observationCommits obs)"
  "updatePricesSets e items (n, w) = Inl (Thrown D C) \<Longrightarrow>
     \<exists>obs. C = commits w @ concat (map observationCommits obs)"
  "updatePricesSets e items (n, w) \<noteq> Inl IllTypedCatalog"
  by (auto simp: updatePricesSets_eq split: if_splits)

lemma manualSets_commits:
  "manualSets e items st = Inr st' \<Longrightarrow>
     \<exists>obs. commits (world_of st') = commits (world_of st) @ concat (map observationCommits obs)"
  "manualSets e items st = Inl (Thrown D C) \<Longrightarrow>
     \<exists>obs. C = commits (world_of st) @ concat (map observationCommits obs)"
  "manualSets e items st \<noteq> Inl IllTypedCatalog"
  by (auto simp: manualSets_eq split: if_splits)

lemma fetched_available:
  "s \<in> set (fst (fetchFromRebrickable e w)) \<Longrightarrow> availability s = Available"
  using fetched_from_entry[of s e w] toLegoSet_Some(2) by blast

lemma fetched_writable:
  assumes "s \<in> set (fst (fetchFromRebrickable e w))"
  shows "writable (Complete s)"
proof -
  from fetched_from_entry[OF assms] obtain r where "toLegoSet r = Some s" by blast
  then show ?thesis
    by (auto simp: toLegoSet_def writable_def split: if_splits)
qed

lemma seeded_empty_writable: "list_all writable (take k (fst (seeded e [] w)))"
  unfolding list_all_iff
proof
  fix x assume "x \<in> set (take k (fst (seeded e [] w)))"
  then have "x \<in> Complete ` set (fst (fetchFromRebrickable e w))"
    by (auto simp: seeded_def dest: in_set_takeD)
  then show "writable x" using fetched_writable by blast
qed

lemma fetch_keeps:
  "commits (snd (fetchFromRebrickable e w)) = commits w"
  "ticks (snd (fetchFromRebrickable e w)) = ticks w"
  "db (snd (fetchFromRebrickable e w)) = db w"
proof -
  from fetchPages_frame[of e 1 "[]" w]
  obtain l where "snd (fetchFromRebrickable e w) = w\<lparr>requests := requests w @ l\<rparr>"
    unfolding fetchFromRebrickable_def by blast
  then show "commits (snd (fetchFromRebrickable e w)) = commits w"
    "ticks (snd (fetchFromRebrickable e w)) = ticks w"
    "db (snd (fetchFromRebrickable e w)) = db w"
    by simp_all
qed

lemma legoSetDoc_availability:
  "(old ++ (legoSetDoc s ++ [''lastUpdated'' \<mapsto> FTime t])) ''availability''
     = Some (FStr (availability_string (availability s)))"
  by (simp add: legoSetDoc_def optional_def map_add_def split: option.splits)

lemma catalogWrites_keepAvailable:
  "\<forall>s\<in>set sets. availability s = Available \<Longrightarrow>
   list_all keepsAvailable (catalogWrites e t sets)"
proof (induction sets arbitrary: t)
  case Nil
  then show ?case by simp
next
  case (Cons s sets)
  have "keepsAvailable (catalogWrite e t s)"
    using Cons.prems legoSetDoc_availability[of Map.empty s "Date_now e t"]
    by (simp add: keepsAvailable_def catalogWrite_def)
  then show ?case using Cons by simp
qed

lemma saveLegoSetsCatalog_commits:
  "commits (saveLegoSetsCatalog e sets w) =
     commits w @ chunks batchSize (catalogWrites e (ticks w) sets)"
  by (simp add: saveLegoSetsCatalog_def saveCatalogFrom_eq)

lemma cleanOldDeals_commits:
  "commits (cleanOldDeals e w) =
     commits w @ chunks batchSize
                   (map (\<lambda>(k, d). Delete ''deals'' k)
                      (filter (\<lambda>(k, d). olderThan (Date_now e (ticks w) - 86400000) d)
                         (db w ''deals'')))"
  by (simp add: cleanOldDeals_eq Let_def)

lemma deletes_keepAvailable:
  "list_all keepsAvailable (map (\<lambda>(k, d). Delete ''deals'' k) xs)"
  by (induction xs) (auto simp: keepsAvailable_def)

lemma observations_keepAvailable:
  "list_all keepsAvailable (concat (concat (map observationCommits obs)))"
  by (induction obs) (auto simp: observationCommits_def keepsAvailable_def split: option.splits)

lemma concat_chunks450 [simp]: "concat (chunks batchSize xs) = xs"
  by (rule concat_chunks) (simp add: batchSize_def)

lemma seeded_keepsAvailable:
  "\<exists>L. commits (snd (seeded e sets0 w)) = commits w @ L \<and> list_all keepsAvailable (concat L)"
proof (cases "length sets0 = 0")
  case True
  have "list_all keepsAvailable
          (catalogWrites e (ticks w) (fst (fetchFromRebrickable e w)))"
    by (rule catalogWrites_keepAvailable) (simp add: fetched_available)
  then show ?thesis using True
    by (simp add: seeded_def saveLegoSetsCatalog_commits fetch_keeps)
next
  case False
  then show ?thesis by (simp add: seeded_def)
qed

lemma updatePrices_keepsAvailable:
  assumes "updatePrices e w = Inr (n, w')"
  shows "list_all keepsAvailable (concat (newCommits w w'))"
proof -
  from assms obtain sets0 where s0: "getLegoSetsCatalog w = Some sets0"
    by (auto simp: updatePrices_eq split: option.splits)
  let ?w1 = "snd (seeded e sets0 w)"
  from assms s0 obtain st where
    st: "updatePricesSets e (take 100 (fst (seeded e sets0 w))) (0, ?w1) = Inr st"
    and w': "w' = cleanOldDeals e (snd st)"
    by (auto simp: updatePrices_eq split: sum.splits)
  obtain L1 where L1: "commits ?w1 = commits w @ L1" "list_all keepsAvailable (concat L1)"
    using seeded_keepsAvailable by blast
  from updatePricesSets_commits(1)[of e _ 0 ?w1 "fst st" "snd st"] st
  obtain obs where L2: "commits (snd st) = commits ?w1 @ concat (map observationCommits obs)"
    by auto
  define xs where "xs = filter (\<lambda>(k, d). olderThan (Date_now e (ticks (snd st)) - 86400000) d)
                          (db (snd st) ''deals'')"
  have L3: "commits w' = commits (snd st) @ chunks batchSize (map (\<lambda>(k, d). Delete ''deals'' k) xs)"
    unfolding w' xs_def by (rule cleanOldDeals_commits)
  have "newCommits w w' = L1 @ concat (map observationCommits obs)
                            @ chunks batchSize (map (\<lambda>(k, d). Delete ''deals'' k) xs)"
    by (simp add: newCommits_def L1(1) L2 L3)
  then show ?thesis
    using L1(2) observations_keepAvailable deletes_keepAvailable
    by simp
qed

lemma updatePrices_thrown_keepsAvailable:
  assumes "updatePrices e w = Inl (Thrown D C)"
  shows "\<exists>L. C = commits w @ L \<and> list_all keepsAvailable (concat L)"
proof -
  from assms obtain sets0 where s0: "getLegoSetsCatalog w = Some sets0"
    by (auto simp: updatePrices_eq split: option.splits)
  let ?w1 = "snd (seeded e sets0 w)"
  from assms s0 have
    st: "updatePricesSets e (take 100 (fst (seeded e sets0 w))) (0, ?w1) = Inl (Thrown D C)"
    by (auto simp: updatePrices_eq split: sum.splits)
  obtain L1 where L1: "commits ?w1 = commits w @ L1" "list_all keepsAvailable (concat L1)"
    using seeded_keepsAvailable by blast
  from updatePricesSets_commits(2)[OF st]
  obtain obs where L2: "C = commits ?w1 @ concat (map observationCommits obs)"
    by auto
  have "C = commits w @ (L1 @ concat (map observationCommits obs))"
    by (simp add: L1(1) L2)
  moreover have "list_all keepsAvailable (concat (L1 @ concat (map observationCommits obs)))"
    using L1(2) observations_keepAvailable by simp
  ultimately show ?thesis by blast
qed

lemma manualPriceUpdate_keepsAvailable:
  assumes "manualPriceUpdate e w = Inr (r, w')"
  shows "list_all keepsAvailable (concat (newCommits w w'))"
proof -
  from assms obtain sets0 where s0: "getLegoSetsCatalog w = Some sets0"
    by (auto simp: manualPriceUpdate_eq split: option.splits)
  let ?w1 = "snd (seeded e sets0 w)"
  let ?st0 = "\<lparr> found = 0, sampleDeals = [], world_of = ?w1 \<rparr>"
  from assms s0 obtain st where
    st: "manualSets e (take 50 (fst (seeded e sets0 w))) ?st0 = Inr st"
    and w': "w' = cleanOldDeals e (world_of st)"
    by (auto simp: manualPriceUpdate_eq split: sum.splits)
  obtain L1 where L1: "commits ?w1 = commits w @ L1" "list_all keepsAvailable (concat L1)"
    using seeded_keepsAvailable by blast
  from manualSets_commits(1)[OF st]
  obtain obs where L2: "commits (world_of st) = commits ?w1 @ concat (map observationCommits obs)"
    by auto
  define xs where "xs = filter (\<lambda>(k, d). olderThan (Date_now e (ticks (world_of st)) - 86400000) d)
                          (db (world_of st) ''deals'')"
  have L3: "commits w' = commits (world_of st)
                         @ chunks batchSize (map (\<lambda>(k, d). Delete ''deals'' k) xs)"
    unfolding w' xs_def by (rule cleanOldDeals_commits)
  have "newCommits w w' = L1 @ concat (map observationCommits obs)
                            @ chunks batchSize (map (\<lambda>(k, d). Delete ''deals'' k) xs)"
    by (simp add: newCommits_def L1(1) L2 L3)
  then show ?thesis
    using L1(2) observations_keepAvailable deletes_keepAvailable
    by simp
qed

lemma manualPriceUpdate_thrown_keepsAvailable:
  assumes "manualPriceUpdate e w = Inl (Thrown D C)"
  shows "\<exists>L. C = commits w @ L \<and> list_all keepsAvailable (concat L)"
proof -
  from assms obtain sets0 where s0: "getLegoSetsCatalog w = Some sets0"
    by (auto simp: manualPriceUpdate_eq split: option.splits)
  let ?w1 = "snd (seeded e sets0 w)"
  let ?st0 = "\<lparr> found = 0, sampleDeals = [], world_of = ?w1 \<rparr>"
  from assms s0 have
    st: "manualSets e (take 50 (fst (seeded e sets0 w))) ?st0 = Inl (Thrown D C)"
    by (auto simp: manualPriceUpdate_eq split: sum.splits)
  obtain L1 where L1: "commits ?w1 = commits w @ L1" "list_all keepsAvailable (concat L1)"
    using seeded_keepsAvailable by blast
  from manualSets_commits(2)[OF st]
  obtain obs where L2: "C = commits ?w1 @ concat (map observationCommits obs)"
    by auto
  have "C = commits w @ (L1 @ concat (map observationCommits obs))"
    by (simp add: L1(1) L2)
  moreover have "list_all keepsAvailable (concat (L1 @ concat (map observationCommits obs)))"
    using L1(2) observations_keepAvailable by simp
  ultimately show ?thesis by blast
qed

lemma updateLegoCatalog_keepsAvailable:
  "list_all keepsAvailable (concat (newCommits w (updateLegoCatalog e w)))"
proof -
  let ?w1 = "fetchThemes e w"
  have c: "commits ?w1 = commits w" "ticks ?w1 = ticks w" by (simp_all add: fetchThemes_def)
  have "newCommits w (updateLegoCatalog e w) =
          chunks batchSize (catalogWrites e (ticks w) (fst (fetchFromRebrickable e ?w1)))"
    by (simp add: newCommits_def updateLegoCatalog_def Let_def case_prod_beta
        saveLegoSetsCatalog_commits fetch_keeps c)
  moreover have "list_all keepsAvailable (catalogWrites e (ticks w) (fst (fetchFromRebrickable e ?w1)))"
    by (rule catalogWrites_keepAvailable) (simp add: fetched_available)
  ultimately show ?thesis by simp
qed

text \<open>
  On an empty catalog the price jobs work on what the fetcher returns, and return: the
  sets of the fetcher have a theme and a piece count.
\<close>

lemma empty_catalog_jobs_return:
  assumes "getLegoSetsCatalog w = Some []"
  shows "\<exists>n w'. updatePrices e w = Inr (n, w')"
    and "\<exists>r w'. manualPriceUpdate e w = Inr (r, w')"
proof -
  show "\<exists>n w'. updatePrices e w = Inr (n, w')"
    by (simp add: updatePrices_eq assms updatePricesSets_eq seeded_empty_writable)
  show "\<exists>r w'. manualPriceUpdate e w = Inr (r, w')"
    by (simp add: manualPriceUpdate_eq assms manualSets_eq seeded_empty_writable)
qed










lemma asLegoSet_legoSetDoc: "asLegoSet (legoSetDoc s) = Some (Complete s)"
proof -
  have a: "getAvailability (legoSetDoc s) = Some (availability s)"
    by (cases "availability s")
       (simp_all add: getAvailability_def getStr_def legoSetDoc_def optional_def map_add_def
          split: option.splits)
  have req: "getStr (legoSetDoc s) ''setNumber'' = Some (LegoSet.setNumber s)"
    "getStr (legoSetDoc s) ''name'' = Some (LegoSet.name s)"
    "getNum (legoSetDoc s) ''price'' = Some (price s)"
    "getStr (legoSetDoc s) ''imageUrl'' = Some (LegoSet.imageUrl s)"
    "getStr (legoSetDoc s) ''url'' = Some (LegoSet.url s)"
    by (simp_all add: getStr_def getNum_def legoSetDoc_def optional_def map_add_def
        split: option.splits)
  have opt: "getStr (legoSetDoc s) ''theme'' = LegoSet.theme s"
    "getNum (legoSetDoc s) ''themeId'' = themeId s"
    "getNum (legoSetDoc s) ''pieces'' = LegoSet.pieces s"
    "getNum (legoSetDoc s) ''year'' = LegoSet.year s"
    by (simp_all add: getStr_def getNum_def legoSetDoc_def optional_def map_add_def
        split: option.splits)
  have typed: "\<not> mistyped (legoSetDoc s)"
    by (simp add: mistyped_def legoSetDoc_def optional_def map_add_def split: option.splits)
  show ?thesis
    by (simp add: asLegoSet_def typed a req opt)
qed

lemma availabilityIn_legoSetDoc:
  "availability s = Available \<Longrightarrow> availabilityIn (legoSetDoc s)"
  by (simp add: availabilityIn_def legoSetDoc_def optional_def map_add_def split: option.splits)

lemma example_catalogs:
  "getLegoSetsCatalog catalog_world = Some [Complete demo_set, Complete pocket_set]"
  "getLegoSetsCatalog free_world = Some [Complete free_set, Complete demo_set]"
  "getLegoSetsCatalog demo_world = Some []"
  "getLegoSetsCatalog themeless_world = Some [Complete themeless_set, Complete pocket_set]"
proof -
  have av: "availability demo_set = Available" "availability pocket_set = Available"
    "availability free_set = Available" "availability themeless_set = Available"
    by (simp_all add: demo_set_def pocket_set_def free_set_def themeless_set_def)
  show "getLegoSetsCatalog catalog_world = Some [Complete demo_set, Complete pocket_set]"
    by (simp add: getLegoSetsCatalog_def catalog_world_def demo_world_def
        availabilityIn_legoSetDoc av asLegoSet_legoSetDoc)
  show "getLegoSetsCatalog free_world = Some [Complete free_set, Complete demo_set]"
    by (simp add: getLegoSetsCatalog_def free_world_def demo_world_def
        availabilityIn_legoSetDoc av asLegoSet_legoSetDoc)
  show "getLegoSetsCatalog demo_world = Some []"
    by (simp add: getLegoSetsCatalog_def demo_world_def)
  show "getLegoSetsCatalog themeless_world = Some [Complete themeless_set, Complete pocket_set]"
    by (simp add: getLegoSetsCatalog_def themeless_world_def demo_world_def
        availabilityIn_legoSetDoc av asLegoSet_legoSetDoc)
qed




text \<open>The price job on a catalog query whose first item is not writable.\<close>

lemma updatePrices_first_unwritable:
  assumes "getLegoSetsCatalog w = Some (item # items)" and "\<not> writable item"
  shows "updatePrices e w = Inl (Thrown (db w) (commits w))"
proof -
  have seed: "seeded e (item # items) w = (item # items, w)"
    by (simp add: seeded_def)
  have "updatePricesSets e (take 100 (item # items)) (0, w) = Inl (Thrown (db w) (commits w))"
    using assms(2) by (simp add: updatePricesSets_eq priced_Cons(2)[OF assms(2)])
  then show ?thesis
    using assms(1) by (simp add: updatePrices_eq seed)
qed

lemma manualPriceUpdate_first_unwritable:
  assumes "getLegoSetsCatalog w = Some (item # items)" and "\<not> writable item"
  shows "manualPriceUpdate e w = Inl (Thrown (db w) (commits w))"
proof -
  have seed: "seeded e (item # items) w = (item # items, w)"
    by (simp add: seeded_def)
  have "manualSets e (take 50 (item # items)) \<lparr> found = 0, sampleDeals = [], world_of = w \<rparr>
          = Inl (Thrown (db w) (commits w))"
    using assms(2) by (simp add: manualSets_eq priced_Cons(2)[OF assms(2)])
  then show ?thesis
    using assms(1) by (simp add: manualPriceUpdate_eq seed)
qed










lemma example_optional:
  "LegoSet.theme demo_set \<noteq> None \<and> LegoSet.pieces demo_set \<noteq> None"
  "LegoSet.theme pocket_set \<noteq> None \<and> LegoSet.pieces pocket_set \<noteq> None"
  "LegoSet.theme free_set \<noteq> None \<and> LegoSet.pieces free_set \<noteq> None"
  "LegoSet.theme themeless_set = None"
  by (simp_all add: demo_set_def pocket_set_def free_set_def themeless_set_def)

lemma example_counters:
  "randoms catalog_world = 0" "randoms free_world = 0" "randoms themeless_world = 0"
  "commits themeless_world = []"
  by (simp_all add: catalog_world_def free_world_def themeless_world_def demo_world_def)



text \<open>
  C9. Every set the fetcher returns has the availability \<open>available\<close>. So the document
  that the catalog save stores for it, whatever was stored before, passes the filter of
  the catalog query; the stock flag of an observation generated from it is decided by the
  random draw alone; and no write of the catalog job or of the two price jobs gives a
  catalog document another availability: each of their writes is to another collection,
  or sets the field to \<open>available\<close>, in a run that returns and in one that an exception
  ends.
\<close>

theorem fetched_sets_available:
  assumes "s \<in> set (fst (fetchFromRebrickable e w))"
  shows "availability s = Available
         \<and> (\<forall>old t. availabilityIn (old ++ (legoSetDoc s ++ [''lastUpdated'' \<mapsto> FTime t])))
         \<and> (\<forall>e' r w'. inStock (fst (generateSimulatedPrice e' s r w')) =
                         (15 / 100 < Math_random e' (randoms (snd (drawDiscount e' r w')))))
         \<and> (\<forall>e' w'. list_all keepsAvailable (concat (newCommits w' (updateLegoCatalog e' w'))))
         \<and> (\<forall>e' w' n w''. updatePrices e' w' = Inr (n, w'') \<longrightarrow>
                list_all keepsAvailable (concat (newCommits w' w'')))
         \<and> (\<forall>e' w' r w''. manualPriceUpdate e' w' = Inr (r, w'') \<longrightarrow>
                list_all keepsAvailable (concat (newCommits w' w'')))
         \<and> (\<forall>e' w' D C. updatePrices e' w' = Inl (Thrown D C) \<longrightarrow>
                (\<exists>L. C = commits w' @ L \<and> list_all keepsAvailable (concat L)))
         \<and> (\<forall>e' w' D C. manualPriceUpdate e' w' = Inl (Thrown D C) \<longrightarrow>
                (\<exists>L. C = commits w' @ L \<and> list_all keepsAvailable (concat L)))"
proof -
  have a: "availability s = Available" by (rule fetched_available[OF assms])
  have "availabilityIn (old ++ (legoSetDoc s ++ [''lastUpdated'' \<mapsto> FTime t]))" for old t
    using legoSetDoc_availability[of old s t] a by (simp add: availabilityIn_def)
  moreover have "inStock (fst (generateSimulatedPrice e' s r w')) =
                   (15 / 100 < Math_random e' (randoms (snd (drawDiscount e' r w'))))" for e' r w'
    using a by (simp add: generateSimulatedPrice_fields drawInStock_def random_def)
  ultimately show ?thesis
    using a updateLegoCatalog_keepsAvailable updatePrices_keepsAvailable
      manualPriceUpdate_keepsAvailable updatePrices_thrown_keepsAvailable
      manualPriceUpdate_thrown_keepsAvailable
    by blast
qed

lemma demo_jobs_return:
  "\<exists>n w''. updatePrices demo_env demo_world = Inr (n, w'')"
  "\<exists>r w''. manualPriceUpdate demo_env demo_world = Inr (r, w'')"
  using empty_catalog_jobs_return[OF example_catalogs(3)] by blast+

lemma themeless_jobs_throw:
  "updatePrices demo_env themeless_world = Inl (Thrown (db themeless_world) [])"
  "manualPriceUpdate demo_env themeless_world = Inl (Thrown (db themeless_world) [])"
proof -
  have nw: "\<not> writable (Complete themeless_set)"
    by (simp add: writable_def example_optional(4))
  show "updatePrices demo_env themeless_world = Inl (Thrown (db themeless_world) [])"
    using updatePrices_first_unwritable[OF example_catalogs(4) nw, of demo_env]
    by (simp add: example_counters(4))
  show "manualPriceUpdate demo_env themeless_world = Inl (Thrown (db themeless_world) [])"
    using manualPriceUpdate_first_unwritable[OF example_catalogs(4) nw, of demo_env]
    by (simp add: example_counters(4))
qed

theorem fetched_sets_available_witness:
  "pocket_set \<in> set (fst (fetchFromRebrickable demo_env demo_world))
   \<and> availability pocket_set = Available
   \<and> availabilityIn (noted ++ (legoSetDoc pocket_set ++ [''lastUpdated'' \<mapsto> FTime 0]))
   \<and> inStock (fst (generateSimulatedPrice demo_env pocket_set ''amazon'' demo_world))
   \<and> list_all keepsAvailable (concat (newCommits demo_world (updateLegoCatalog demo_env demo_world)))
   \<and> (\<exists>n w''. updatePrices demo_env demo_world = Inr (n, w'')
          \<and> list_all keepsAvailable (concat (newCommits demo_world w'')))
   \<and> (\<exists>r w''. manualPriceUpdate demo_env demo_world = Inr (r, w'')
          \<and> list_all keepsAvailable (concat (newCommits demo_world w'')))
   \<and> (\<exists>D C L. updatePrices demo_env themeless_world = Inl (Thrown D C)
          \<and> C = commits themeless_world @ L \<and> list_all keepsAvailable (concat L))
   \<and> (\<exists>D C L. manualPriceUpdate demo_env themeless_world = Inl (Thrown D C)
          \<and> C = commits themeless_world @ L \<and> list_all keepsAvailable (concat L))"
proof -
  have m: "pocket_set \<in> set (fst (fetchFromRebrickable demo_env demo_world))"
    by (simp add: demo_fetched)
  note t = fetched_sets_available[OF m]
  note t1 = t[THEN conjunct1]
  note t2 = t[THEN conjunct2, THEN conjunct1]
  note t3 = t[THEN conjunct2, THEN conjunct2, THEN conjunct1]
  note t4 = t[THEN conjunct2, THEN conjunct2, THEN conjunct2, THEN conjunct1]
  note t5 = t[THEN conjunct2, THEN conjunct2, THEN conjunct2, THEN conjunct2, THEN conjunct1]
  note t6 = t[THEN conjunct2, THEN conjunct2, THEN conjunct2, THEN conjunct2, THEN conjunct2,
              THEN conjunct1]
  note t7 = t[THEN conjunct2, THEN conjunct2, THEN conjunct2, THEN conjunct2, THEN conjunct2,
              THEN conjunct2, THEN conjunct1]
  note t8 = t[THEN conjunct2, THEN conjunct2, THEN conjunct2, THEN conjunct2, THEN conjunct2,
              THEN conjunct2, THEN conjunct2]
  have r: "Math_random demo_env n = 1 / 2" for n by (simp add: demo_env_def)
  have a: "availabilityIn (noted ++ (legoSetDoc pocket_set ++ [''lastUpdated'' \<mapsto> FTime 0]))"
    using t2 by blast
  have "inStock (fst (generateSimulatedPrice demo_env pocket_set ''amazon'' demo_world)) =
                 (15 / 100 < Math_random demo_env
                    (randoms (snd (drawDiscount demo_env ''amazon'' demo_world))))"
    using t3 by blast
  then have s: "inStock (fst (generateSimulatedPrice demo_env pocket_set ''amazon'' demo_world))"
    by (simp add: r)
  have c: "list_all keepsAvailable
             (concat (newCommits demo_world (updateLegoCatalog demo_env demo_world)))"
    using t4 by blast
  have u: "\<exists>n w''. updatePrices demo_env demo_world = Inr (n, w'')
          \<and> list_all keepsAvailable (concat (newCommits demo_world w''))"
    using t5 demo_jobs_return(1) by blast
  have v: "\<exists>r w''. manualPriceUpdate demo_env demo_world = Inr (r, w'')
          \<and> list_all keepsAvailable (concat (newCommits demo_world w''))"
    using t6 demo_jobs_return(2) by blast
  have x: "\<exists>D C L. updatePrices demo_env themeless_world = Inl (Thrown D C)
          \<and> C = commits themeless_world @ L \<and> list_all keepsAvailable (concat L)"
    using t7 themeless_jobs_throw(1) by blast
  have y: "\<exists>D C L. manualPriceUpdate demo_env themeless_world = Inl (Thrown D C)
          \<and> C = commits themeless_world @ L \<and> list_all keepsAvailable (concat L)"
    using t8 themeless_jobs_throw(2) by blast
  from m t1 a s c u v x y show ?thesis by blast
qed

end
